theory Spec2Isabelle
  imports Main
begin

section \<open>Data model of wam.c\<close>

text \<open>
  The enumerations of the program. The first enumerator of each has the value 0, which is
  what an all-zero row reads as: \<open>AVAILABLE\<close> for a status, \<open>ANIMHIDING\<close> for an
  animation type.
\<close>

datatype PlayResult = WHACK | ESCAPE | MISFIRE | TOOSOON | SCAREDOFF

datatype MoleStatus =
  AVAILABLE | ASSIGNED | HIDING | UP | WHACKED | EXPIRED | SCARED | TERMINATING | COMPLETE

datatype AnimationType =
  ANIMHIDING | ANIMPOPUP | ANIMWHACKED | ANIMESCAPED | ANIMMISFIRE | ANIMMISFIRESCARED
  | ANIMUPSCARED | SPLASHPOPUP | INSTRPOPUP | INSTRSCARED

text \<open>
  C \<open>int\<close> and \<open>long\<close> values are modelled as \<open>int\<close>: every quantity of the game
  (scores of at most a hundred moles, durations of at most 15000 msec, clock readings) stays
  far inside the machine range. A \<open>char\<close> is a \<open>char\<close>; \<open>pthread_t\<close> and
  \<open>pthread_cond_t\<close> are opaque and modelled as a number, 0 for the all-zero pattern.
  The fields \<open>totaltime\<close> and \<open>remainingtime\<close> of \<open>struct ScoreSheetRecord\<close> are
  never written by \<open>record_results\<close> and are left out.
\<close>

record timespec =
  tv_sec :: int
  tv_nsec :: int

record ScoreSheetRecord =
  mole :: int
  hole :: int
  startscore :: int
  missedscore :: int
  whackedscore :: int
  bonusscore :: int
  penaltyscore :: int
  endscore :: int
  playresult :: PlayResult
  selection :: char

record AnimationSpec =
  animationtype :: AnimationType
  hole :: int
  numholes :: int
  duration :: int
  score1 :: int
  score2 :: int
  syncpoints :: int
  synccount :: int
  mole :: int

record MoleCommRecord =
  molestatus :: MoleStatus
  displayack :: MoleStatus
  thread :: nat
  keycond :: nat
  dispcond :: nat
  threadslot :: int
  mole :: int
  duration :: int
  uptime :: int
  hole :: int
  keystruck :: char
  animthread :: nat
  animspec :: AnimationSpec
  animcancelled :: int
  scoreidx :: int
  scaredflag :: int
  scaredtime :: timespec

definition MOLEHOLES :: nat where
  "MOLEHOLES = 9"


text \<open>What \<open>memset(p, 0, sizeof ...)\<close> leaves in a descriptor and in a row.\<close>

definition zero_AnimationSpec :: AnimationSpec where
  "zero_AnimationSpec =
     \<lparr>animationtype = ANIMHIDING, AnimationSpec.hole = 0, numholes = 0,
      AnimationSpec.duration = 0, score1 = 0, score2 = 0, syncpoints = 0, synccount = 0,
      AnimationSpec.mole = 0\<rparr>"

definition zero_MoleCommRecord :: MoleCommRecord where
  "zero_MoleCommRecord =
     \<lparr>molestatus = AVAILABLE, displayack = AVAILABLE, thread = 0, keycond = 0, dispcond = 0,
      threadslot = 0, mole = 0, duration = 0, uptime = 0, hole = 0, keystruck = CHR 0x00,
      animthread = 0, animspec = zero_AnimationSpec, animcancelled = 0, scoreidx = 0,
      scaredflag = 0, scaredtime = \<lparr>tv_sec = 0, tv_nsec = 0\<rparr>\<rparr>"


section \<open>Errors and the environment of a blocked thread\<close>

text \<open>
  \<open>AssertionFailed\<close>: an \<open>assert\<close> aborts the process. \<open>FatalError\<close>: the program
  restores the terminal and exits through \<open>error_at_line(-1, ...)\<close>. \<open>OutOfBounds\<close>:
  an index outside its array. \<open>Blocked\<close>: the thread is still waiting when the supplied
  wake-ups are used up, that is, the call has not returned.
\<close>

datatype error = AssertionFailed | FatalError | OutOfBounds | Blocked

text \<open>
  A thread inside \<open>pthread_cond_wait\<close> has released the table lock. One return of the
  wait is a \<open>wakeup\<close>: either the call failed, or the thread holds the lock again and finds
  the row as the other threads left it (\<open>Woken f\<close>: they applied \<open>f\<close> to the row).
\<close>

datatype wakeup = Woken "MoleCommRecord \<Rightarrow> MoleCommRecord" | WaitError int

text \<open>
  The acknowledgment of \<open>display_thread\<close>:
  \<open>molecomm[i].displayack = molecomm[i].molestatus\<close>, followed by the signal on
  \<open>dispcond\<close>.
\<close>

definition display_ack :: "MoleCommRecord \<Rightarrow> MoleCommRecord" where
  "display_ack p = p\<lparr>displayack := molestatus p\<rparr>"

text \<open>
  No thread but the caller of \<open>set_mole_status\<close> writes \<open>molestatus\<close>; a list of
  wake-ups respects that when each of its updates leaves the field alone.
\<close>

definition keeps_status :: "wakeup list \<Rightarrow> bool" where
  "keeps_status ws =
     (\<forall>w \<in> set ws. case w of Woken f \<Rightarrow> (\<forall>q. molestatus (f q) = molestatus q)
                         | WaitError e \<Rightarrow> True)"

section \<open>set_mole_status\<close>

text \<open>The \<open>switch\<close> of assertions at the head of \<open>set_mole_status\<close>.\<close>

definition status_assert :: "MoleStatus \<Rightarrow> MoleStatus \<Rightarrow> bool" where
  "status_assert cur newstatus =
     (case newstatus of
        AVAILABLE \<Rightarrow> cur = COMPLETE
      | ASSIGNED \<Rightarrow> cur = AVAILABLE
      | HIDING \<Rightarrow> cur = ASSIGNED
      | UP \<Rightarrow> cur = HIDING
      | WHACKED \<Rightarrow> cur = UP
      | EXPIRED \<Rightarrow> cur = UP
      | SCARED \<Rightarrow> cur = HIDING \<or> cur = UP
      | TERMINATING \<Rightarrow> cur = WHACKED \<or> cur = EXPIRED \<or> cur = SCARED
      | COMPLETE \<Rightarrow> cur = TERMINATING)"

text \<open>The statuses whose write is followed by the wait for the acknowledgment.\<close>

definition waits_for_ack :: "MoleStatus \<Rightarrow> bool" where
  "waits_for_ack newstatus =
     (newstatus = HIDING \<or> newstatus = UP \<or> newstatus = WHACKED \<or> newstatus = EXPIRED
      \<or> newstatus = TERMINATING)"

text \<open>
  \<open>while (p->molestatus != p->displayack) pthread_cond_wait(&p->dispcond, &molecomm_mtx)\<close>,
  a failed wait being fatal. The result carries the wake-ups that were not consumed.
\<close>

fun wait_dispcond :: "MoleCommRecord \<Rightarrow> wakeup list \<Rightarrow> error + MoleCommRecord \<times> wakeup list" where
  "wait_dispcond p [] = (if molestatus p \<noteq> displayack p then Inl Blocked else Inr (p, []))"
| "wait_dispcond p (WaitError e # ws) =
     (if molestatus p \<noteq> displayack p then Inl FatalError else Inr (p, WaitError e # ws))"
| "wait_dispcond p (Woken f # ws) =
     (if molestatus p \<noteq> displayack p then wait_dispcond (f p) ws
      else Inr (p, Woken f # ws))"

definition set_mole_status ::
  "MoleCommRecord \<Rightarrow> MoleStatus \<Rightarrow> wakeup list \<Rightarrow> error + MoleCommRecord \<times> wakeup list" where
  "set_mole_status p newstatus ws =
     (if \<not> status_assert (molestatus p) newstatus then Inl AssertionFailed
      else
        let p1 = (if newstatus = AVAILABLE then zero_MoleCommRecord else p);
            p2 = p1\<lparr>molestatus := newstatus\<rparr>
        in if waits_for_ack newstatus then wait_dispcond p2 ws else Inr (p2, ws))"

text \<open>A row taken through a sequence of calls, each with the wake-ups of its own wait.\<close>

fun set_mole_statuses ::
  "MoleCommRecord \<Rightarrow> (MoleStatus \<times> wakeup list) list \<Rightarrow> error + MoleCommRecord" where
  "set_mole_statuses p [] = Inr p"
| "set_mole_statuses p ((newstatus, ws) # calls) =
     (case set_mole_status p newstatus ws of
        Inl e \<Rightarrow> Inl e
      | Inr (p', rest) \<Rightarrow> set_mole_statuses p' calls)"

text \<open>
  The lifecycle graph as the specification words it, one pair (predecessor, status) per
  edge, and what it means for a sequence of statuses to be a path in it.
\<close>

definition spec_graph :: "(MoleStatus \<times> MoleStatus) list" where
  "spec_graph =
     [(COMPLETE, AVAILABLE), (AVAILABLE, ASSIGNED), (ASSIGNED, HIDING), (HIDING, UP),
      (UP, WHACKED), (UP, EXPIRED), (HIDING, SCARED), (UP, SCARED),
      (WHACKED, TERMINATING), (EXPIRED, TERMINATING), (SCARED, TERMINATING),
      (TERMINATING, COMPLETE)]"

fun spec_path :: "MoleStatus list \<Rightarrow> bool" where
  "spec_path (a # b # rest) = (List.member spec_graph (a, b) \<and> spec_path (b # rest))"
| "spec_path [a] = True"
| "spec_path [] = True"


section \<open>Scoring\<close>

text \<open>
  C division and remainder truncate towards zero; \<open>div\<close> and \<open>mod\<close> of HOL round
  down. The program's \<open>/\<close> and \<open>%\<close> are modelled by \<open>c_div\<close> and \<open>c_mod\<close>.
\<close>

definition c_div :: "int \<Rightarrow> int \<Rightarrow> int" where
  "c_div a b = (if (a < 0) = (b < 0) then \<bar>a\<bar> div \<bar>b\<bar> else - (\<bar>a\<bar> div \<bar>b\<bar>))"

definition c_mod :: "int \<Rightarrow> int \<Rightarrow> int" where
  "c_mod a b = a - b * c_div a b"

definition MISSEDMOLESCORE :: int where
  "MISSEDMOLESCORE = - 10"

definition MISSEDMOLEMULTIPLIER :: int where
  "MISSEDMOLEMULTIPLIER = 1"

definition MISSEDMOLECAP :: int where
  "MISSEDMOLECAP = - 50"

definition WHACKEDMOLESCORE :: int where
  "WHACKEDMOLESCORE = 20"

definition BONUSSLICES :: nat where
  "BONUSSLICES = 5"

definition BONUSPOINTS :: "int list" where
  "BONUSPOINTS = [25, 0, 0, 20, 80]"

text \<open>
  The scores buffer (\<open>scores\<close>, with \<open>numscores\<close> its length) and the static counter
  \<open>missedcount\<close> of \<open>compute_score\<close>. The model follows the runs in which \<open>malloc\<close>
  and \<open>realloc\<close> succeed; when they fail the process exits.
\<close>

record score_state =
  scores :: "ScoreSheetRecord list"
  missedcount :: int

definition initial_scores :: score_state where
  "initial_scores = \<lparr>scores = [], missedcount = 0\<rparr>"

definition record_results ::
  "ScoreSheetRecord list \<Rightarrow> int \<Rightarrow> int \<Rightarrow> char \<Rightarrow> int \<Rightarrow> int \<Rightarrow> int \<Rightarrow> int \<Rightarrow> int \<Rightarrow> int
   \<Rightarrow> PlayResult \<Rightarrow> ScoreSheetRecord list \<times> int" where
  "record_results scs m h key start missed whacked bonus penalty final res =
     (scs @ [\<lparr>ScoreSheetRecord.mole = m, ScoreSheetRecord.hole = h, startscore = start, missedscore = missed,
              whackedscore = whacked, bonusscore = bonus, penaltyscore = penalty,
              endscore = final, playresult = res, selection = key\<rparr>],
      int (length scs))"

text \<open>
  The \<open>ESCAPE\<close>/\<open>SCAREDOFF\<close> branch: the argument \<open>mc\<close> is the counter after
  \<open>++missedcount\<close>.
\<close>

definition missed_score :: "int \<Rightarrow> int \<Rightarrow> int" where
  "missed_score mc curscore =
     (let m1 = mc * MISSEDMOLESCORE * MISSEDMOLEMULTIPLIER;
          m2 = (if m1 < MISSEDMOLECAP then MISSEDMOLECAP else m1)
      in if - m2 > curscore then - curscore else m2)"

definition compute_score ::
  "score_state \<Rightarrow> int \<Rightarrow> int \<Rightarrow> char \<Rightarrow> int \<Rightarrow> PlayResult \<Rightarrow> error + score_state \<times> int" where
  "compute_score st m h key bonusstage res =
     (let curscore =
            (if length (scores st) > 0 then endscore (scores st ! (length (scores st) - 1))
             else 0);
          finish = (\<lambda>mc missed whacked bonus penalty.
            case record_results (scores st) m h key curscore missed whacked bonus penalty
                   (curscore + missed + whacked + bonus + penalty) res of
              (scs, scorenum) \<Rightarrow> Inr (\<lparr>scores = scs, missedcount = mc\<rparr>, scorenum))
      in case res of
           WHACK \<Rightarrow>
             if 0 \<le> bonusstage \<and> bonusstage < int BONUSSLICES
             then finish (missedcount st) 0 (0 + WHACKEDMOLESCORE) (BONUSPOINTS ! nat bonusstage) 0
             else Inl OutOfBounds
         | ESCAPE \<Rightarrow>
             finish (missedcount st + 1) (missed_score (missedcount st + 1) curscore) 0 0 0
         | SCAREDOFF \<Rightarrow>
             finish (missedcount st + 1) (missed_score (missedcount st + 1) curscore) 0 0 0
         | MISFIRE \<Rightarrow> finish (missedcount st) 0 0 0 0
         | TOOSOON \<Rightarrow> finish (missedcount st) 0 0 0 0)"

text \<open>A run of \<open>compute_score\<close> calls, each given as (mole, hole, key, bonusstage, result).\<close>

fun compute_scores ::
  "score_state \<Rightarrow> (int \<times> int \<times> char \<times> int \<times> PlayResult) list \<Rightarrow> error + score_state" where
  "compute_scores st [] = Inr st"
| "compute_scores st ((m, h, key, bonusstage, res) # calls) =
     (case compute_score st m h key bonusstage res of
        Inl e \<Rightarrow> Inl e
      | Inr (st', scorenum) \<Rightarrow> compute_scores st' calls)"

text \<open>The player's running total: the end score of the last record, 0 before the first.\<close>

definition running_total :: "score_state \<Rightarrow> int" where
  "running_total st = (if scores st = [] then 0 else endscore (last (scores st)))"

definition is_miss :: "PlayResult \<Rightarrow> bool" where
  "is_miss res = (res = ESCAPE \<or> res = SCAREDOFF)"

definition miss_count :: "(int \<times> int \<times> char \<times> int \<times> PlayResult) list \<Rightarrow> int" where
  "miss_count calls = int (length (filter (\<lambda>c. is_miss (snd (snd (snd (snd c))))) calls))"

section \<open>Timing of the controller (mole_thread)\<close>

text \<open>
  \<open>uptime = tsrandom(); uptime = (uptime % 5000L + 3000L) * (long)p->duration / 10000L\<close>.
  The draw \<open>r\<close> is what \<open>random()\<close> returned.
\<close>

definition mole_uptime :: "int \<Rightarrow> int \<Rightarrow> int" where
  "mole_uptime r d = c_div ((c_mod r 5000 + 3000) * d) 10000"

text \<open>The absolute deadline of the wait for the key, from the clock reading \<open>starttime\<close>.\<close>

definition waituntil :: "timespec \<Rightarrow> int \<Rightarrow> timespec" where
  "waituntil starttime up =
     \<lparr>tv_sec = tv_sec starttime
                + c_div (c_mod up 1000 * 1000000 + tv_nsec starttime) 1000000000
                + c_div up 1000,
      tv_nsec = c_mod (c_mod up 1000 * 1000000 + tv_nsec starttime) 1000000000\<rparr>"

definition timespec_ns :: "timespec \<Rightarrow> int" where
  "timespec_ns t = tv_sec t * 1000000000 + tv_nsec t"


section \<open>The wait for the key and its outcome (mole_thread)\<close>

definition ETIMEDOUT :: int where
  "ETIMEDOUT = 110"

text \<open>
  One return of \<open>pthread_cond_timedwait\<close> on \<open>keycond\<close>: its return value, and what the
  other threads did to the row while the lock was released.
\<close>

datatype keywake = KeyWake int "MoleCommRecord \<Rightarrow> MoleCommRecord"

text \<open>
  \<open>while (p->keystruck == '\0' && condretval == 0)
       condretval = pthread_cond_timedwait(&p->keycond, &molecomm_mtx, &waituntil)\<close>
\<close>

fun key_wait ::
  "MoleCommRecord \<Rightarrow> int \<Rightarrow> keywake list \<Rightarrow> error + MoleCommRecord \<times> int \<times> keywake list" where
  "key_wait p condretval [] =
     (if keystruck p = CHR 0x00 \<and> condretval = 0 then Inl Blocked
      else Inr (p, condretval, []))"
| "key_wait p condretval (KeyWake r f # kws) =
     (if keystruck p = CHR 0x00 \<and> condretval = 0 then key_wait (f p) r kws
      else Inr (p, condretval, KeyWake r f # kws))"

text \<open>\<open>p->keystruck = '\0'; int condretval = 0;\<close> and the loop.\<close>

definition mole_key_wait ::
  "MoleCommRecord \<Rightarrow> keywake list \<Rightarrow> error + MoleCommRecord \<times> int \<times> keywake list" where
  "mole_key_wait p kws = key_wait (p\<lparr>keystruck := CHR 0x00\<rparr>) 0 kws"

text \<open>
  The \<open>switch (condretval)\<close> after the loop. \<open>hk\<close> is \<open>holekeys\<close>; \<open>other\<close> is what
  the other threads do to the row between \<open>unlock_molecomm()\<close> and \<open>lock_molecomm()\<close> in
  the \<open>ETIMEDOUT\<close> case; \<open>ws\<close> are the wake-ups of the wait inside
  \<open>set_mole_status\<close>. The display counter \<open>molesremaining\<close> is not modelled.
\<close>

definition mole_key_outcome ::
  "char list \<Rightarrow> MoleCommRecord \<Rightarrow> int \<Rightarrow> score_state \<Rightarrow> (MoleCommRecord \<Rightarrow> MoleCommRecord)
   \<Rightarrow> wakeup list \<Rightarrow> error + MoleCommRecord \<times> score_state \<times> wakeup list" where
  "mole_key_outcome hk p condretval st other ws =
     (let finish = (\<lambda>q newstatus scored.
            case scored of
              Inl e \<Rightarrow> Inl e
            | Inr (st', ssidx) \<Rightarrow>
                (case set_mole_status (q\<lparr>scoreidx := ssidx\<rparr>) newstatus ws of
                   Inl e \<Rightarrow> Inl e
                 | Inr (p', rest) \<Rightarrow> Inr (p', st', rest)))
      in if condretval = 0 then
           if \<not> (0 \<le> hole p \<and> hole p < int (length hk)) then Inl OutOfBounds
           else if keystruck p = hk ! nat (hole p) then
             finish p WHACKED
               (compute_score st (mole p) (hole p) (char_of (hole p + 48))
                  (synccount (animspec p) - 1) WHACK)
           else
             finish p SCARED (compute_score st (mole p) (hole p) (CHR 0x00) 0 SCAREDOFF)
         else if condretval = ETIMEDOUT then
           finish (other p) EXPIRED (compute_score st (mole p) (hole p) (CHR 0x00) 0 ESCAPE)
         else Inl FatalError)"

section \<open>The input dispatcher (input_thread)\<close>

text \<open>
  What a thread does to other threads: \<open>Cancel i\<close> is
  \<open>pthread_cancel(molecomm[i].animthread)\<close>, \<open>SignalKey i\<close> is
  \<open>pthread_cond_signal(&molecomm[i].keycond)\<close>. The model follows the runs in which both
  calls succeed; when one fails the process exits.
\<close>

datatype effect = Cancel nat | SignalKey nat

text \<open>The two conditions of the first loop over the rows, for the pressed key.\<close>

definition eligible :: "char list \<Rightarrow> char \<Rightarrow> MoleCommRecord \<Rightarrow> bool" where
  "eligible hk inputkey m =
     (molestatus m = UP
      \<and> displayack m = UP
      \<and> hk ! nat (hole m) = inputkey
      \<and> keystruck m \<noteq> inputkey
      \<and> synccount (animspec m) > 0
      \<and> synccount (animspec m) < syncpoints (animspec m)
      \<and> animcancelled m = 0)"

definition nearmiss :: "char list \<Rightarrow> char \<Rightarrow> MoleCommRecord \<Rightarrow> bool" where
  "nearmiss hk inputkey m =
     ((molestatus m = EXPIRED \<or> molestatus m = WHACKED
       \<or> (molestatus m = UP \<and> synccount (animspec m) = syncpoints (animspec m)))
      \<and> hk ! nat (hole m) = inputkey)"

text \<open>
  The first loop, from row \<open>i\<close> on, with \<open>whackflag\<close> and the effects so far. It returns
  the rows, \<open>whackflag\<close> and the effects in the order of the calls.
\<close>

fun whack_loop ::
  "char list \<Rightarrow> char \<Rightarrow> nat \<Rightarrow> bool \<Rightarrow> effect list \<Rightarrow> MoleCommRecord list
   \<Rightarrow> MoleCommRecord list \<times> bool \<times> effect list" where
  "whack_loop hk inputkey i whackflag effs [] = ([], whackflag, effs)"
| "whack_loop hk inputkey i whackflag effs (m # ms) =
     (if eligible hk inputkey m then
        (case whack_loop hk inputkey (Suc i) True (effs @ [Cancel i, SignalKey i]) ms of
           (ms', flag, effs') \<Rightarrow>
             (m\<lparr>animcancelled := 1, keystruck := inputkey\<rparr> # ms', flag, effs'))
      else if nearmiss hk inputkey m then
        (case whack_loop hk inputkey (Suc i) True effs ms of
           (ms', flag, effs') \<Rightarrow> (m # ms', flag, effs'))
      else
        (case whack_loop hk inputkey (Suc i) whackflag effs ms of
           (ms', flag, effs') \<Rightarrow> (m # ms', flag, effs')))"

text \<open>
  The loop of the misfire branch, from row \<open>i\<close> on, with \<open>misfiretype\<close> so far.
  \<open>clk i\<close> is what \<open>clock_gettime(CLOCK_MONOTONIC, ...)\<close> reads for row \<open>i\<close>.
\<close>

fun scare_loop ::
  "char list \<Rightarrow> char \<Rightarrow> (nat \<Rightarrow> timespec) \<Rightarrow> nat \<Rightarrow> PlayResult \<Rightarrow> MoleCommRecord list
   \<Rightarrow> MoleCommRecord list \<times> PlayResult" where
  "scare_loop hk inputkey clk i misfiretype [] = ([], misfiretype)"
| "scare_loop hk inputkey clk i misfiretype (m # ms) =
     (let m' = (if molestatus m = HIDING \<or> molestatus m = UP
                then m\<lparr>scaredflag := 1, scaredtime := clk i\<rparr> else m);
          misfiretype' = (if molestatus m = HIDING \<and> inputkey = hk ! nat (hole m)
                          then TOOSOON else misfiretype)
      in case scare_loop hk inputkey clk (Suc i) misfiretype' ms of
           (ms', t) \<Rightarrow> (m' # ms', t))"

text \<open>
  \<open>for (i=0; i<MOLEHOLES; i++) if (inputkey == holekeys[i]) break; misfirehole = i;\<close>
\<close>

fun find_misfirehole :: "char \<Rightarrow> nat \<Rightarrow> char list \<Rightarrow> nat" where
  "find_misfirehole inputkey i [] = i"
| "find_misfirehole inputkey i (k # ks) =
     (if inputkey = k then i else find_misfirehole inputkey (Suc i) ks)"

text \<open>
  The body of the dispatcher's loop for the key that \<open>waitforkey\<close> returned
  (\<open>CHR 0x00\<close>: the wait timed out). \<open>mc\<close> is the table \<open>molecomm\<close>; \<open>others\<close> is what
  the other threads do to the table between the \<open>unlock_molecomm()\<close> that ends the first
  loop and the \<open>lock_molecomm()\<close> that starts the misfire branch.
\<close>

definition input_key ::
  "char list \<Rightarrow> (nat \<Rightarrow> timespec) \<Rightarrow> (MoleCommRecord list \<Rightarrow> MoleCommRecord list) \<Rightarrow> char
   \<Rightarrow> MoleCommRecord list \<Rightarrow> score_state
   \<Rightarrow> error + MoleCommRecord list \<times> score_state \<times> effect list" where
  "input_key hk clk others inputkey mc st =
     (if inputkey = CHR 0x00 then Inr (mc, st, [])
      else if inputkey \<notin> set hk then Inr (mc, st, [])
      else
        case whack_loop hk inputkey 0 False [] mc of
          (mc1, whackflag, effs) \<Rightarrow>
            if \<not> whackflag then
              (case scare_loop hk inputkey clk 0 MISFIRE (others mc1) of
                 (mc2, misfiretype) \<Rightarrow>
                   (case compute_score st (- 1) (int (find_misfirehole inputkey 0 hk))
                           inputkey 0 misfiretype of
                      Inl e \<Rightarrow> Inl e
                    | Inr (st', scorenum) \<Rightarrow> Inr (mc2, st', effs)))
            else Inr (mc1, st, effs))"

text \<open>The rows the dispatcher reads \<open>holekeys[molecomm[i].hole]\<close> of must hold a hole.\<close>

definition holes_ok :: "MoleCommRecord list \<Rightarrow> bool" where
  "holes_ok mc = list_all (\<lambda>m. 0 \<le> hole m \<and> hole m < int MOLEHOLES) mc"



text \<open>
  What the two loops do to one row: the first loop to a row that accepts the key, with the
  calls it makes for row \<open>i\<close>; the misfire loop to a row that is hiding or up.
\<close>

definition whacked_row :: "char list \<Rightarrow> char \<Rightarrow> MoleCommRecord \<Rightarrow> MoleCommRecord" where
  "whacked_row hk inputkey m =
     (if eligible hk inputkey m then m\<lparr>animcancelled := 1, keystruck := inputkey\<rparr> else m)"

definition whack_effects :: "char list \<Rightarrow> char \<Rightarrow> nat \<times> MoleCommRecord \<Rightarrow> effect list" where
  "whack_effects hk inputkey im =
     (if eligible hk inputkey (snd im) then [Cancel (fst im), SignalKey (fst im)] else [])"

definition scared_row :: "(nat \<Rightarrow> timespec) \<Rightarrow> nat \<times> MoleCommRecord \<Rightarrow> MoleCommRecord" where
  "scared_row clk im =
     (if molestatus (snd im) = HIDING \<or> molestatus (snd im) = UP
      then (snd im)\<lparr>scaredflag := 1, scaredtime := clk (fst im)\<rparr> else snd im)"

section \<open>Presentations (animation_thread)\<close>

text \<open>The descriptor templates, in the order of the source.\<close>

definition WhackedAnim :: AnimationSpec where
  "WhackedAnim =
     \<lparr>animationtype = ANIMWHACKED, AnimationSpec.hole = 0, numholes = int MOLEHOLES,
      AnimationSpec.duration = 1500, score1 = 0, score2 = 0, syncpoints = 3, synccount = 0,
      AnimationSpec.mole = 0\<rparr>"

definition EscapedAnim :: AnimationSpec where
  "EscapedAnim =
     \<lparr>animationtype = ANIMESCAPED, AnimationSpec.hole = 0, numholes = int MOLEHOLES,
      AnimationSpec.duration = 1500, score1 = 0, score2 = 0, syncpoints = 3, synccount = 0,
      AnimationSpec.mole = 0\<rparr>"

definition HidingAnim :: AnimationSpec where
  "HidingAnim =
     \<lparr>animationtype = ANIMHIDING, AnimationSpec.hole = 0, numholes = int MOLEHOLES,
      AnimationSpec.duration = 0, score1 = 0, score2 = 0, syncpoints = 2, synccount = 0,
      AnimationSpec.mole = 0\<rparr>"

definition PopupAnim :: AnimationSpec where
  "PopupAnim =
     \<lparr>animationtype = ANIMPOPUP, AnimationSpec.hole = 0, numholes = int MOLEHOLES,
      AnimationSpec.duration = 0, score1 = 0, score2 = 0, syncpoints = 6, synccount = 0,
      AnimationSpec.mole = 0\<rparr>"

definition MisfireScaredAnim :: AnimationSpec where
  "MisfireScaredAnim =
     \<lparr>animationtype = ANIMMISFIRESCARED, AnimationSpec.hole = 0, numholes = int MOLEHOLES,
      AnimationSpec.duration = 2000, score1 = 0, score2 = 0, syncpoints = 2, synccount = 0,
      AnimationSpec.mole = 0\<rparr>"

definition HideScaredAnim :: AnimationSpec where
  "HideScaredAnim =
     \<lparr>animationtype = ANIMUPSCARED, AnimationSpec.hole = 0, numholes = int MOLEHOLES,
      AnimationSpec.duration = 2000, score1 = 0, score2 = 0, syncpoints = 2, synccount = 0,
      AnimationSpec.mole = 0\<rparr>"

definition UpScaredAnim :: AnimationSpec where
  "UpScaredAnim =
     \<lparr>animationtype = ANIMUPSCARED, AnimationSpec.hole = 0, numholes = int MOLEHOLES,
      AnimationSpec.duration = 2000, score1 = 0, score2 = 0, syncpoints = 2, synccount = 0,
      AnimationSpec.mole = 0\<rparr>"

definition PopupSplash :: AnimationSpec where
  "PopupSplash =
     \<lparr>animationtype = SPLASHPOPUP, AnimationSpec.hole = 0, numholes = int MOLEHOLES,
      AnimationSpec.duration = 0, score1 = 0, score2 = 0, syncpoints = 2, synccount = 0,
      AnimationSpec.mole = 0\<rparr>"

definition PopupInstr :: AnimationSpec where
  "PopupInstr =
     \<lparr>animationtype = INSTRPOPUP, AnimationSpec.hole = 0, numholes = int MOLEHOLES,
      AnimationSpec.duration = 0, score1 = 0, score2 = 0, syncpoints = 2, synccount = 0,
      AnimationSpec.mole = 0\<rparr>"

definition ScaredInstr :: AnimationSpec where
  "ScaredInstr =
     \<lparr>animationtype = INSTRSCARED, AnimationSpec.hole = 0, numholes = int MOLEHOLES,
      AnimationSpec.duration = 0, score1 = 0, score2 = 0, syncpoints = 2, synccount = 0,
      AnimationSpec.mole = 0\<rparr>"

text \<open>
  The loop of the \<open>ANIMHIDING\<close> presentation. \<open>rnd k\<close> is the \<open>k\<close>-th value
  \<open>tsrandom()\<close> returns to this thread (two draws choose frames, the third the pause);
  the fuel is the number of passes the thread is given before it is cancelled. The result
  says whether the loop was left.
\<close>

fun hiding_loop :: "nat \<Rightarrow> (nat \<Rightarrow> nat) \<Rightarrow> nat \<Rightarrow> int \<Rightarrow> int \<Rightarrow> bool" where
  "hiding_loop 0 rnd k d timeremaining = False"
| "hiding_loop (Suc fuel) rnd k d timeremaining =
     (if timeremaining > 0 \<or> d = - 1 then
        if timeremaining < 600 \<and> d \<noteq> - 1 then True
        else
          let t1 = timeremaining - 600;
              t = c_mod (int (rnd (k + 2))) 1200 + 800;
              targettime = (if t > t1 \<and> d \<noteq> - 1 then t1 else t)
          in hiding_loop fuel rnd (k + 3) d (t1 - targettime)
      else True)"

text \<open>
  One pass of the pop-up presentations, as the values written to \<open>aspec->synccount\<close>
  from the local counter: 1 at the start, then, except for \<open>SPLASHPOPUP\<close>, one more for
  each of the four levels going down and one for the blank hole.
\<close>

definition popup_pass :: "AnimationType \<Rightarrow> int list" where
  "popup_pass t =
     (let c = 0 + 1
      in c # (if t = ANIMPOPUP \<or> t = INSTRPOPUP
              then [c + 1, c + 2, c + 3, c + 4] @ [c + 5] else []))"

text \<open>\<open>do { ... } while (aspec->animationtype == INSTRPOPUP)\<close>, until the fuel is used up.\<close>

fun popup_loop :: "nat \<Rightarrow> AnimationType \<Rightarrow> int list" where
  "popup_loop 0 t = []"
| "popup_loop (Suc fuel) t =
     popup_pass t @ (if t = INSTRPOPUP then popup_loop fuel t else [])"

text \<open>
  The values \<open>animation_thread\<close> writes to \<open>aspec->synccount\<close>, in order. The loops
  that only a cancellation ends (\<open>ANIMHIDING\<close> with duration -1, \<open>INSTRPOPUP\<close>,
  \<open>INSTRSCARED\<close>) run while there is fuel; \<open>INSTRSCARED\<close> never leaves its loop, so its
  last assignment is never reached.
\<close>

definition animation_thread :: "nat \<Rightarrow> (nat \<Rightarrow> nat) \<Rightarrow> AnimationSpec \<Rightarrow> int list" where
  "animation_thread fuel rnd aspec =
     (case animationtype aspec of
        ANIMHIDING \<Rightarrow>
          1 # (if hiding_loop fuel rnd 0 (AnimationSpec.duration aspec)
                    (AnimationSpec.duration aspec)
               then [2] else [])
      | ANIMPOPUP \<Rightarrow> popup_loop fuel ANIMPOPUP
      | INSTRPOPUP \<Rightarrow> popup_loop fuel INSTRPOPUP
      | SPLASHPOPUP \<Rightarrow> popup_loop fuel SPLASHPOPUP
      | ANIMWHACKED \<Rightarrow> [1, 2, 3]
      | ANIMESCAPED \<Rightarrow> [1, 2, 3]
      | ANIMMISFIRE \<Rightarrow> []
      | ANIMMISFIRESCARED \<Rightarrow> [1, 2]
      | INSTRSCARED \<Rightarrow> [1]
      | ANIMUPSCARED \<Rightarrow> [1, 2])"

text \<open>
  The checkpoint discipline of the specification for the values a presentation writes:
  the first is 1, they increase strictly, none exceeds the declared total, and the last
  equals the declared total.
\<close>

definition sync_discipline :: "AnimationSpec \<Rightarrow> int list \<Rightarrow> bool" where
  "sync_discipline aspec writes =
     (writes \<noteq> [] \<and> hd writes = 1 \<and> sorted_wrt (<) writes
      \<and> list_all (\<lambda>w. w \<le> syncpoints aspec) writes
      \<and> last writes = syncpoints aspec)"

section \<open>The display bridge (display_thread)\<close>

text \<open>
  The reaction to a changed status of one row: \<open>old\<close> is the status of the previous
  snapshot, \<open>pnew\<close> the row of the new snapshot, \<open>m\<close> the live row, \<open>scs\<close> the scores
  buffer. The result is the live row after the acknowledgment, and whether an animation
  thread was created on its descriptor. The thread handle \<open>animthread\<close> is opaque and left
  as it is; joining the previous animation thread is not modelled.
\<close>

definition display_status_change ::
  "char list \<Rightarrow> ScoreSheetRecord list \<Rightarrow> MoleStatus \<Rightarrow> MoleCommRecord \<Rightarrow> MoleCommRecord
   \<Rightarrow> error + MoleCommRecord \<times> bool" where
  "display_status_change hk scs old pnew m =
     (let launch = (\<lambda>a. Inr (display_ack (m\<lparr>animspec := a, animcancelled := 0\<rparr>), True));
          cleared = m\<lparr>animspec := zero_AnimationSpec\<rparr>
      in if molestatus pnew = old then Inr (m, False)
         else case molestatus pnew of
           HIDING \<Rightarrow>
             launch (HidingAnim\<lparr>AnimationSpec.hole := hole pnew,
                       AnimationSpec.duration := duration pnew - uptime pnew,
                       AnimationSpec.mole := mole pnew\<rparr>)
         | UP \<Rightarrow>
             launch (PopupAnim\<lparr>AnimationSpec.hole := hole pnew,
                       AnimationSpec.duration := uptime pnew,
                       AnimationSpec.mole := mole pnew\<rparr>)
         | WHACKED \<Rightarrow>
             if 0 \<le> scoreidx m \<and> scoreidx m < int (length scs) then
               launch (WhackedAnim\<lparr>AnimationSpec.hole := hole pnew,
                         score1 := whackedscore (scs ! nat (scoreidx m)),
                         score2 := bonusscore (scs ! nat (scoreidx m)),
                         AnimationSpec.mole := mole pnew\<rparr>)
             else Inl OutOfBounds
         | EXPIRED \<Rightarrow>
             if 0 \<le> scoreidx m \<and> scoreidx m < int (length scs) then
               launch (EscapedAnim\<lparr>AnimationSpec.hole := hole pnew,
                         score1 := missedscore (scs ! nat (scoreidx m)),
                         score2 := 0,
                         AnimationSpec.mole := mole pnew\<rparr>)
             else Inl OutOfBounds
         | TERMINATING \<Rightarrow> Inr (display_ack cleared, False)
         | SCARED \<Rightarrow>
             if displayack m = UP then
               launch (UpScaredAnim\<lparr>AnimationSpec.hole := hole pnew,
                         AnimationSpec.mole := mole pnew\<rparr>)
             else if displayack m = HIDING then
               if \<not> (0 \<le> hole m \<and> hole m < int (length hk)) then Inl OutOfBounds
               else if keystruck m = hk ! nat (hole m) then
                 launch (MisfireScaredAnim\<lparr>AnimationSpec.hole := hole pnew,
                           AnimationSpec.mole := mole pnew\<rparr>)
               else
                 launch (HideScaredAnim\<lparr>AnimationSpec.hole := hole pnew,
                           AnimationSpec.mole := mole pnew\<rparr>)
             else Inr (display_ack cleared, False)
         | AVAILABLE \<Rightarrow> Inr (display_ack m, False)
         | ASSIGNED \<Rightarrow> Inr (display_ack m, False)
         | COMPLETE \<Rightarrow> Inr (display_ack m, False))"

text \<open>
  The first step of the bridge's reaction to a penalty record: the test and the
  force-marking for one row, and the loop over the rows from row \<open>i\<close> on.
\<close>

definition cancel_active :: "MoleCommRecord \<Rightarrow> bool" where
  "cancel_active m =
     ((animationtype (animspec m) = ANIMHIDING \<or> animationtype (animspec m) = ANIMPOPUP)
      \<and> synccount (animspec m) > 0
      \<and> synccount (animspec m) < syncpoints (animspec m)
      \<and> animcancelled m = 0)"

definition force_finished :: "MoleCommRecord \<Rightarrow> MoleCommRecord" where
  "force_finished m =
     m\<lparr>animcancelled := 1,
       animspec := (animspec m)\<lparr>synccount := syncpoints (animspec m)\<rparr>\<rparr>"

fun cancel_animations :: "nat \<Rightarrow> MoleCommRecord list \<Rightarrow> MoleCommRecord list \<times> effect list" where
  "cancel_animations i [] = ([], [])"
| "cancel_animations i (m # ms) =
     (case cancel_animations (Suc i) ms of
        (ms', effs) \<Rightarrow>
          if cancel_active m then (force_finished m # ms', Cancel i # effs)
          else (m # ms', effs))"


text \<open>
  The presentations the bridge launches, as (kind, declared checkpoints, checkpoint count
  at the launch): the templates \<open>HidingAnim\<close>, \<open>PopupAnim\<close>, \<open>WhackedAnim\<close>,
  \<open>EscapedAnim\<close>, \<open>UpScaredAnim\<close> and \<open>HideScaredAnim\<close> (both of kind
  \<open>ANIMUPSCARED\<close>) and \<open>MisfireScaredAnim\<close>.
\<close>

definition bridge_kinds :: "(AnimationType \<times> int \<times> int) list" where
  "bridge_kinds =
     [(ANIMHIDING, 2, 0), (ANIMPOPUP, 6, 0), (ANIMWHACKED, 3, 0), (ANIMESCAPED, 3, 0),
      (ANIMUPSCARED, 2, 0), (ANIMMISFIRESCARED, 2, 0)]"

section \<open>The exposure phase of the controller, and a key that comes early\<close>

text \<open>
  The controller from \<open>set_mole_status(p, UP)\<close> to the end of the \<open>switch\<close> on the
  result of the wait for the key: \<open>ws\<close> are the wake-ups of the handshake for \<open>UP\<close>,
  \<open>kws\<close> the returns of the timed wait, \<open>ws'\<close> the wake-ups of the handshake for the
  status the outcome sets.
\<close>

definition mole_up ::
  "char list \<Rightarrow> MoleCommRecord \<Rightarrow> wakeup list \<Rightarrow> keywake list \<Rightarrow> score_state
   \<Rightarrow> (MoleCommRecord \<Rightarrow> MoleCommRecord) \<Rightarrow> wakeup list
   \<Rightarrow> error + MoleCommRecord \<times> score_state" where
  "mole_up hk p ws kws st other ws' =
     (case set_mole_status p UP ws of
        Inl e \<Rightarrow> Inl e
      | Inr (p1, rest) \<Rightarrow>
          (case mole_key_wait p1 kws of
             Inl e \<Rightarrow> Inl e
           | Inr (p2, condretval, krest) \<Rightarrow>
               (case mole_key_outcome hk p2 condretval st other ws' of
                  Inl e \<Rightarrow> Inl e
                | Inr (p3, st', rest') \<Rightarrow> Inr (p3, st'))))"

text \<open>
  What the other threads can do to a row while its controller is still inside the wait
  of \<open>set_mole_status(p, UP)\<close>: the bridge reacts to the new status and acknowledges it
  (\<open>bridge_step\<close>, the live row being its own snapshot), the presentation it launched
  writes its first checkpoint (\<open>presentation_started\<close>), and the dispatcher's first loop
  handles a pressed key (\<open>early_strike\<close> is the three in this order).
\<close>

definition bridge_step ::
  "char list \<Rightarrow> ScoreSheetRecord list \<Rightarrow> MoleStatus \<Rightarrow> MoleCommRecord \<Rightarrow> MoleCommRecord" where
  "bridge_step hk scs old q =
     (case display_status_change hk scs old q q of
        Inr (q', launched) \<Rightarrow> q'
      | Inl e \<Rightarrow> q)"

definition presentation_started :: "MoleCommRecord \<Rightarrow> MoleCommRecord" where
  "presentation_started q = q\<lparr>animspec := (animspec q)\<lparr>synccount := 1\<rparr>\<rparr>"

definition early_strike :: "char list \<Rightarrow> ScoreSheetRecord list \<Rightarrow> char \<Rightarrow> MoleCommRecord \<Rightarrow> MoleCommRecord" where
  "early_strike hk scs inputkey q =
     whacked_row hk inputkey (presentation_started (bridge_step hk scs HIDING q))"

text \<open>
  A write \<open>aspec->synccount = ++synccount\<close> of the pop-up presentation that its thread
  still carries out after \<open>pthread_cancel\<close>: the thread has cancellation disabled around
  the write, so the request takes effect only afterwards.
\<close>

definition late_checkpoint :: "MoleCommRecord \<Rightarrow> MoleCommRecord" where
  "late_checkpoint q = q\<lparr>animspec := (animspec q)\<lparr>synccount := synccount (animspec q) + 1\<rparr>\<rparr>"

section \<open>Example data\<close>

text \<open>
  The key assignment of \<open>assign_hole_keys\<close>, and a table for the examples: a mole hiding
  in hole 2, a mole up in hole 4 in the middle of its pop-up presentation, and a free row.
\<close>

definition holekeys :: "char list" where
  "holekeys = ''789456123''"

definition example_table :: "MoleCommRecord list" where
  "example_table =
     [zero_MoleCommRecord\<lparr>molestatus := HIDING, displayack := HIDING, mole := 6, hole := 2,
        animspec := HidingAnim\<lparr>synccount := 1\<rparr>\<rparr>,
      zero_MoleCommRecord\<lparr>molestatus := UP, displayack := UP, mole := 5, hole := 4,
        animspec := PopupAnim\<lparr>synccount := 3\<rparr>\<rparr>,
      zero_MoleCommRecord]"

definition example_clock :: "nat \<Rightarrow> timespec" where
  "example_clock i = \<lparr>tv_sec = 100, tv_nsec = int i\<rparr>"

text \<open>
  A row whose controller has just written \<open>HIDING\<close>, for a cycle of 6500 msec of which
  1950 msec are up time; and a source of random numbers that always returns 0.
\<close>

definition example_hiding_row :: MoleCommRecord where
  "example_hiding_row =
     zero_MoleCommRecord\<lparr>molestatus := HIDING, displayack := ASSIGNED, mole := 1,
       duration := 6500, uptime := 1950, hole := 2\<rparr>"

definition no_random :: "nat \<Rightarrow> nat" where
  "no_random k = 0"

section \<open>The lifecycle of a row\<close>

lemma status_assert_spec_graph:
  "status_assert cur newstatus = List.member spec_graph (cur, newstatus)"
  by (cases cur; cases newstatus; simp add: status_assert_def spec_graph_def)

lemma wait_dispcond_acked:
  "wait_dispcond p ws = Inr (p', rest) \<Longrightarrow> displayack p' = molestatus p'"
  by (induction p ws rule: wait_dispcond.induct) (auto split: if_splits)

lemma keeps_status_Cons:
  "keeps_status (w # ws) =
     ((case w of Woken f \<Rightarrow> (\<forall>q. molestatus (f q) = molestatus q) | WaitError e \<Rightarrow> True)
      \<and> keeps_status ws)"
  by (simp add: keeps_status_def)

lemma wait_dispcond_status:
  "keeps_status ws \<Longrightarrow> wait_dispcond p ws = Inr (p', rest) \<Longrightarrow> molestatus p' = molestatus p"
  by (induction p ws rule: wait_dispcond.induct) (auto simp: keeps_status_Cons split: if_splits)

lemma wait_dispcond_done:
  "molestatus p = displayack p \<Longrightarrow> wait_dispcond p ws = Inr (p, ws)"
  by (cases "(p, ws)" rule: wait_dispcond.cases) auto

lemma set_mole_status_assert:
  "(set_mole_status p newstatus ws = Inl AssertionFailed) = (\<not> status_assert (molestatus p) newstatus)"
proof -
  have "wait_dispcond q ws \<noteq> Inl AssertionFailed" for q
    by (induction q ws rule: wait_dispcond.induct) auto
  then show ?thesis
    by (simp add: set_mole_status_def Let_def)
qed

lemma set_mole_status_result:
  assumes "set_mole_status p newstatus ws = Inr (p', rest)" and "keeps_status ws"
  shows "molestatus p' = newstatus"
proof (cases "waits_for_ack newstatus")
  case True
  with assms have w: "wait_dispcond (p\<lparr>molestatus := newstatus\<rparr>) ws = Inr (p', rest)"
    by (auto simp: set_mole_status_def Let_def waits_for_ack_def split: if_splits)
  from wait_dispcond_status[OF assms(2) w] show ?thesis by simp
next
  case False
  with assms show ?thesis
    by (auto simp: set_mole_status_def Let_def split: if_splits)
qed

lemma set_mole_statuses_path:
  "set_mole_statuses p calls = Inr p' \<Longrightarrow> \<forall>c \<in> set calls. keeps_status (snd c) \<Longrightarrow>
   spec_path (molestatus p # map fst calls) \<and> molestatus p' = last (molestatus p # map fst calls)"
proof (induction p calls rule: set_mole_statuses.induct)
  case (1 p)
  then show ?case by simp
next
  case (2 p newstatus ws calls)
  from "2.prems"(1) obtain q rest where
    q: "set_mole_status p newstatus ws = Inr (q, rest)" and r: "set_mole_statuses q calls = Inr p'"
    by (auto split: sum.splits)
  from q have "set_mole_status p newstatus ws \<noteq> Inl AssertionFailed" by simp
  then have e: "List.member spec_graph (molestatus p, newstatus)"
    by (simp add: set_mole_status_assert status_assert_spec_graph)
  from "2.prems"(2) have k: "keeps_status ws" and ks: "\<forall>c \<in> set calls. keeps_status (snd c)"
    by auto
  have s: "molestatus q = newstatus" by (rule set_mole_status_result[OF q k])
  from "2.IH"[OF q refl r ks] s e show ?case
    by (cases calls) auto
qed


text \<open>
  Claim C1. \<open>set_mole_status(p, newstatus)\<close> passes its assertion exactly when the
  row's current status is the predecessor the lifecycle graph gives for \<open>newstatus\<close>
  (\<open>AVAILABLE\<close> after \<open>COMPLETE\<close>, \<open>ASSIGNED\<close> after \<open>AVAILABLE\<close>, \<open>HIDING\<close> after
  \<open>ASSIGNED\<close>, \<open>UP\<close> after \<open>HIDING\<close>, \<open>WHACKED\<close> and \<open>EXPIRED\<close> after \<open>UP\<close>,
  \<open>SCARED\<close> after \<open>HIDING\<close> or \<open>UP\<close>, \<open>TERMINATING\<close> after \<open>WHACKED\<close>,
  \<open>EXPIRED\<close> or \<open>SCARED\<close>, \<open>COMPLETE\<close> after \<open>TERMINATING\<close>). Consequently the
  statuses a row passes through in any sequence of calls that return form a path in that
  graph; out of \<open>HIDING\<close> the only steps are to \<open>UP\<close> and \<open>SCARED\<close>, out of
  \<open>UP\<close> the only steps are to \<open>WHACKED\<close>, \<open>EXPIRED\<close> and \<open>SCARED\<close>.
\<close>

theorem set_mole_status_lifecycle:
  "(set_mole_status p newstatus ws \<noteq> Inl AssertionFailed)
      = List.member spec_graph (molestatus p, newstatus)
   \<and> (set_mole_statuses p calls = Inr p' \<longrightarrow> (\<forall>c \<in> set calls. keeps_status (snd c)) \<longrightarrow>
        spec_path (molestatus p # map fst calls)
        \<and> molestatus p' = last (molestatus p # map fst calls))
   \<and> (molestatus p = HIDING \<longrightarrow>
        (set_mole_status p newstatus ws \<noteq> Inl AssertionFailed)
          = (newstatus = UP \<or> newstatus = SCARED))
   \<and> (molestatus p = UP \<longrightarrow>
        (set_mole_status p newstatus ws \<noteq> Inl AssertionFailed)
          = (newstatus = WHACKED \<or> newstatus = EXPIRED \<or> newstatus = SCARED))"
proof -
  have a: "(set_mole_status p newstatus ws \<noteq> Inl AssertionFailed)
             = status_assert (molestatus p) newstatus"
    by (simp add: set_mole_status_assert)
  have b: "set_mole_statuses p calls = Inr p' \<longrightarrow> (\<forall>c \<in> set calls. keeps_status (snd c)) \<longrightarrow>
        spec_path (molestatus p # map fst calls)
        \<and> molestatus p' = last (molestatus p # map fst calls)"
    using set_mole_statuses_path by blast
  have c: "molestatus p = HIDING \<longrightarrow>
        status_assert (molestatus p) newstatus = (newstatus = UP \<or> newstatus = SCARED)"
    by (cases newstatus) (simp_all add: status_assert_def)
  have d: "molestatus p = UP \<longrightarrow>
        status_assert (molestatus p) newstatus
          = (newstatus = WHACKED \<or> newstatus = EXPIRED \<or> newstatus = SCARED)"
    by (cases newstatus) (simp_all add: status_assert_def)
  from a b c d show ?thesis
    unfolding status_assert_spec_graph by blast
qed

lemma keeps_status_ack: "keeps_status [Woken display_ack]"
  by (simp add: keeps_status_def display_ack_def)

lemma keeps_status_Nil: "keeps_status []"
  by (simp add: keeps_status_def)

theorem set_mole_status_lifecycle_witness:
  "set_mole_statuses zero_MoleCommRecord
     [(ASSIGNED, []), (HIDING, [Woken display_ack]), (UP, [Woken display_ack]),
      (WHACKED, [Woken display_ack]), (TERMINATING, [Woken display_ack]), (COMPLETE, []),
      (AVAILABLE, [])] = Inr zero_MoleCommRecord
   \<and> keeps_status [] \<and> keeps_status [Woken display_ack]
   \<and> spec_path [AVAILABLE, ASSIGNED, HIDING, UP, WHACKED, TERMINATING, COMPLETE, AVAILABLE]
   \<and> set_mole_status (zero_MoleCommRecord\<lparr>molestatus := HIDING\<rparr>) WHACKED [] = Inl AssertionFailed
   \<and> \<not> List.member spec_graph (HIDING, WHACKED)"
proof -
  let ?calls = "[(ASSIGNED, []), (HIDING, [Woken display_ack]), (UP, [Woken display_ack]),
      (WHACKED, [Woken display_ack]), (TERMINATING, [Woken display_ack]), (COMPLETE, []),
      (AVAILABLE, [])]"
  have run: "set_mole_statuses zero_MoleCommRecord ?calls = Inr zero_MoleCommRecord"
    by (simp add: set_mole_status_def status_assert_def waits_for_ack_def display_ack_def
        zero_MoleCommRecord_def)
  have ks: "\<forall>c \<in> set ?calls. keeps_status (snd c)"
    by (simp add: keeps_status_ack keeps_status_Nil)
  have bad: "set_mole_status (zero_MoleCommRecord\<lparr>molestatus := HIDING\<rparr>) WHACKED []
      = Inl AssertionFailed"
    by (simp add: set_mole_status_def status_assert_def)
  from set_mole_status_lifecycle
      [of "zero_MoleCommRecord\<lparr>molestatus := HIDING\<rparr>" WHACKED "[]" ?calls zero_MoleCommRecord]
    bad
  have nb: "\<not> List.member spec_graph (HIDING, WHACKED)" by simp
  from set_mole_status_lifecycle
      [of zero_MoleCommRecord ASSIGNED "[]" ?calls zero_MoleCommRecord] run ks
  have "spec_path (molestatus zero_MoleCommRecord # map fst ?calls)" by blast
  then have "spec_path [AVAILABLE, ASSIGNED, HIDING, UP, WHACKED, TERMINATING, COMPLETE, AVAILABLE]"
    by (simp add: zero_MoleCommRecord_def)
  with run bad nb show ?thesis
    by (simp only: keeps_status_ack keeps_status_Nil simp_thms)
qed

section \<open>Scores\<close>

lemma c_div_nonneg: "0 \<le> a \<Longrightarrow> 0 < b \<Longrightarrow> c_div a b = a div b"
  by (simp add: c_div_def)

lemma c_mod_nonneg: "0 \<le> a \<Longrightarrow> 0 < b \<Longrightarrow> c_mod a b = a mod b"
  by (simp add: c_mod_def c_div_nonneg minus_mult_div_eq_mod)

lemma missed_score_formula:
  "curscore + missed_score mc curscore = max 0 (curscore - min 50 (10 * mc))"
  by (simp add: missed_score_def Let_def MISSEDMOLESCORE_def MISSEDMOLEMULTIPLIER_def
      MISSEDMOLECAP_def max_def min_def)


lemma curscore_running_total:
  "(if length (scores st) > 0 then endscore (scores st ! (length (scores st) - 1)) else 0)
     = running_total st"
  by (simp add: running_total_def last_conv_nth)

lemma compute_score_miss:
  assumes "is_miss res"
  shows "compute_score st m h key b res =
     Inr (\<lparr>scores = scores st @
            [\<lparr>ScoreSheetRecord.mole = m, ScoreSheetRecord.hole = h,
              startscore = running_total st,
              missedscore = missed_score (missedcount st + 1) (running_total st),
              whackedscore = 0, bonusscore = 0, penaltyscore = 0,
              endscore = max 0 (running_total st - min 50 (10 * (missedcount st + 1))),
              playresult = res, selection = key\<rparr>],
          missedcount = missedcount st + 1\<rparr>, int (length (scores st)))"
proof -
  have e: "running_total st + missed_score (missedcount st + 1) (running_total st) + 0 + 0 + 0
      = max 0 (running_total st - min 50 (10 * (missedcount st + 1)))"
    using missed_score_formula[of "running_total st" "missedcount st + 1"] by simp
  from assms e show ?thesis
    unfolding compute_score_def curscore_running_total Let_def record_results_def is_miss_def
    by auto
qed

lemma compute_score_penalty:
  assumes "res = MISFIRE \<or> res = TOOSOON"
  shows "compute_score st m h key b res =
     Inr (\<lparr>scores = scores st @
            [\<lparr>ScoreSheetRecord.mole = m, ScoreSheetRecord.hole = h,
              startscore = running_total st,
              missedscore = 0, whackedscore = 0, bonusscore = 0, penaltyscore = 0,
              endscore = running_total st,
              playresult = res, selection = key\<rparr>],
          missedcount = missedcount st\<rparr>, int (length (scores st)))"
  using assms
  unfolding compute_score_def curscore_running_total Let_def record_results_def
  by auto

lemma compute_score_whack:
  assumes "0 \<le> b" "b < 5"
  shows "compute_score st m h key b WHACK =
     Inr (\<lparr>scores = scores st @
            [\<lparr>ScoreSheetRecord.mole = m, ScoreSheetRecord.hole = h,
              startscore = running_total st,
              missedscore = 0, whackedscore = 20, bonusscore = BONUSPOINTS ! nat b, penaltyscore = 0,
              endscore = running_total st + 20 + BONUSPOINTS ! nat b,
              playresult = WHACK, selection = key\<rparr>],
          missedcount = missedcount st\<rparr>, int (length (scores st)))"
  using assms
  unfolding compute_score_def curscore_running_total Let_def record_results_def
  by (auto simp: BONUSSLICES_def WHACKEDMOLESCORE_def)

lemma compute_score_missedcount:
  "compute_score st m h key b res = Inr (st', idx) \<Longrightarrow>
   missedcount st' = missedcount st + (if is_miss res then 1 else 0)"
  unfolding compute_score_def Let_def record_results_def is_miss_def
  by (cases res) (auto split: if_splits)

lemma compute_scores_missedcount:
  "compute_scores st calls = Inr st' \<Longrightarrow> missedcount st' = missedcount st + miss_count calls"
proof (induction st calls rule: compute_scores.induct)
  case (1 st)
  then show ?case by (simp add: miss_count_def)
next
  case (2 st m h key bonusstage res calls)
  from "2.prems" obtain st1 idx where
    a: "compute_score st m h key bonusstage res = Inr (st1, idx)"
    and b: "compute_scores st1 calls = Inr st'"
    by (auto split: sum.splits)
  from "2.IH"[OF a refl b] compute_score_missedcount[OF a] show ?case
    by (simp add: miss_count_def)
qed


text \<open>
  Claim C3. For a miss outcome (\<open>ESCAPE\<close> or \<open>SCAREDOFF\<close>) that follows any run of
  outcomes from the start of the game, the appended record's end score is
  \<open>max 0 (previousTotal - min 50 (10 * missCount))\<close>, where \<open>previousTotal\<close> is the
  running total before the outcome and \<open>missCount\<close> the number of miss outcomes so far,
  this one included; the running total after it is not negative.
\<close>

theorem miss_outcome_endscore:
  assumes "res = ESCAPE \<or> res = SCAREDOFF"
    and "compute_scores initial_scores calls = Inr st"
  shows "compute_score st m h key b res =
     Inr (\<lparr>scores = scores st @
            [\<lparr>ScoreSheetRecord.mole = m, ScoreSheetRecord.hole = h,
              startscore = running_total st,
              missedscore = missed_score (miss_count calls + 1) (running_total st),
              whackedscore = 0, bonusscore = 0, penaltyscore = 0,
              endscore = max 0 (running_total st - min 50 (10 * (miss_count calls + 1))),
              playresult = res, selection = key\<rparr>],
          missedcount = miss_count calls + 1\<rparr>, int (length (scores st)))
     \<and> (case compute_score st m h key b res of
          Inr (st', idx) \<Rightarrow> 0 \<le> running_total st'
        | Inl e \<Rightarrow> False)"
proof -
  from assms(1) have miss: "is_miss res" by (simp add: is_miss_def)
  from compute_scores_missedcount[OF assms(2)]
  have mc: "missedcount st = miss_count calls" by (simp add: initial_scores_def)
  show ?thesis
    unfolding compute_score_miss[OF miss] mc
    by (simp add: running_total_def)
qed

theorem miss_outcome_endscore_witness:
  "compute_scores initial_scores
      [(1, 3, CHR ''3'', 0, WHACK), (2, 4, CHR 0x00, 0, ESCAPE)]
     = Inr \<lparr>scores =
              [\<lparr>ScoreSheetRecord.mole = 1, ScoreSheetRecord.hole = 3, startscore = 0,
                missedscore = 0, whackedscore = 20, bonusscore = 25, penaltyscore = 0,
                endscore = 45, playresult = WHACK, selection = CHR ''3''\<rparr>,
               \<lparr>ScoreSheetRecord.mole = 2, ScoreSheetRecord.hole = 4, startscore = 45,
                missedscore = - 10, whackedscore = 0, bonusscore = 0, penaltyscore = 0,
                endscore = 35, playresult = ESCAPE, selection = CHR 0x00\<rparr>],
            missedcount = 1\<rparr>
   \<and> compute_score
          \<lparr>scores =
              [\<lparr>ScoreSheetRecord.mole = 1, ScoreSheetRecord.hole = 3, startscore = 0,
                missedscore = 0, whackedscore = 20, bonusscore = 25, penaltyscore = 0,
                endscore = 45, playresult = WHACK, selection = CHR ''3''\<rparr>,
               \<lparr>ScoreSheetRecord.mole = 2, ScoreSheetRecord.hole = 4, startscore = 45,
                missedscore = - 10, whackedscore = 0, bonusscore = 0, penaltyscore = 0,
                endscore = 35, playresult = ESCAPE, selection = CHR 0x00\<rparr>],
            missedcount = 1\<rparr> 3 5 (CHR 0x00) 0 SCAREDOFF
     = Inr (\<lparr>scores =
              [\<lparr>ScoreSheetRecord.mole = 1, ScoreSheetRecord.hole = 3, startscore = 0,
                missedscore = 0, whackedscore = 20, bonusscore = 25, penaltyscore = 0,
                endscore = 45, playresult = WHACK, selection = CHR ''3''\<rparr>,
               \<lparr>ScoreSheetRecord.mole = 2, ScoreSheetRecord.hole = 4, startscore = 45,
                missedscore = - 10, whackedscore = 0, bonusscore = 0, penaltyscore = 0,
                endscore = 35, playresult = ESCAPE, selection = CHR 0x00\<rparr>,
               \<lparr>ScoreSheetRecord.mole = 3, ScoreSheetRecord.hole = 5, startscore = 35,
                missedscore = - 20, whackedscore = 0, bonusscore = 0, penaltyscore = 0,
                endscore = 15, playresult = SCAREDOFF, selection = CHR 0x00\<rparr>],
            missedcount = 2\<rparr>, 2)"
proof -
  let ?calls = "[(1, 3, CHR ''3'', 0, WHACK), (2, 4, CHR 0x00, 0, ESCAPE)]"
  let ?st = "\<lparr>scores =
              [\<lparr>ScoreSheetRecord.mole = 1, ScoreSheetRecord.hole = 3, startscore = 0,
                missedscore = 0, whackedscore = 20, bonusscore = 25, penaltyscore = 0,
                endscore = 45, playresult = WHACK, selection = CHR ''3''\<rparr>,
               \<lparr>ScoreSheetRecord.mole = 2, ScoreSheetRecord.hole = 4, startscore = 45,
                missedscore = - 10, whackedscore = 0, bonusscore = 0, penaltyscore = 0,
                endscore = 35, playresult = ESCAPE, selection = CHR 0x00\<rparr>],
            missedcount = 1\<rparr>"
  have run: "compute_scores initial_scores ?calls = Inr ?st"
    by (simp add: compute_score_def initial_scores_def record_results_def missed_score_def
        BONUSSLICES_def BONUSPOINTS_def WHACKEDMOLESCORE_def MISSEDMOLESCORE_def
        MISSEDMOLEMULTIPLIER_def MISSEDMOLECAP_def Let_def)
  have n: "miss_count ?calls = 1" by (simp add: miss_count_def is_miss_def)
  have t: "running_total ?st = 35" by (simp add: running_total_def)
  have h: "SCAREDOFF = ESCAPE \<or> SCAREDOFF = SCAREDOFF" by simp
  have "compute_score ?st 3 5 (CHR 0x00) 0 SCAREDOFF
     = Inr (\<lparr>scores = scores ?st @
              [\<lparr>ScoreSheetRecord.mole = 3, ScoreSheetRecord.hole = 5, startscore = 35,
                missedscore = - 20, whackedscore = 0, bonusscore = 0, penaltyscore = 0,
                endscore = 15, playresult = SCAREDOFF, selection = CHR 0x00\<rparr>],
            missedcount = 2\<rparr>, 2)"
    using miss_outcome_endscore[of SCAREDOFF ?calls ?st 3 5 "CHR 0x00" 0, OF h run]
    unfolding n t
    by (simp add: missed_score_def MISSEDMOLESCORE_def MISSEDMOLEMULTIPLIER_def
        MISSEDMOLECAP_def)
  with run show ?thesis by simp
qed

text \<open>
  Claim C10. For a \<open>MISFIRE\<close> or \<open>TOOSOON\<close> outcome \<open>compute_score\<close> appends one
  record whose missed, whacked, bonus and penalty components are all zero and whose end
  score is the running total before the outcome.
\<close>

theorem penalty_outcome_no_score_change:
  assumes "res = MISFIRE \<or> res = TOOSOON"
  shows "compute_score st m h key b res =
     Inr (\<lparr>scores = scores st @
            [\<lparr>ScoreSheetRecord.mole = m, ScoreSheetRecord.hole = h,
              startscore = running_total st,
              missedscore = 0, whackedscore = 0, bonusscore = 0, penaltyscore = 0,
              endscore = running_total st,
              playresult = res, selection = key\<rparr>],
          missedcount = missedcount st\<rparr>, int (length (scores st)))"
  by (rule compute_score_penalty[OF assms])

theorem penalty_outcome_no_score_change_witness:
  "compute_score
     \<lparr>scores =
        [\<lparr>ScoreSheetRecord.mole = 1, ScoreSheetRecord.hole = 3, startscore = 0,
          missedscore = 0, whackedscore = 20, bonusscore = 25, penaltyscore = 0,
          endscore = 45, playresult = WHACK, selection = CHR ''3''\<rparr>],
      missedcount = 0\<rparr> (- 1) 7 (CHR ''q'') 0 TOOSOON =
     Inr (\<lparr>scores =
        [\<lparr>ScoreSheetRecord.mole = 1, ScoreSheetRecord.hole = 3, startscore = 0,
          missedscore = 0, whackedscore = 20, bonusscore = 25, penaltyscore = 0,
          endscore = 45, playresult = WHACK, selection = CHR ''3''\<rparr>,
         \<lparr>ScoreSheetRecord.mole = - 1, ScoreSheetRecord.hole = 7, startscore = 45,
          missedscore = 0, whackedscore = 0, bonusscore = 0, penaltyscore = 0,
          endscore = 45, playresult = TOOSOON, selection = CHR ''q''\<rparr>],
      missedcount = 0\<rparr>, 1)"
  using penalty_outcome_no_score_change[of TOOSOON
     "\<lparr>scores =
        [\<lparr>ScoreSheetRecord.mole = 1, ScoreSheetRecord.hole = 3, startscore = 0,
          missedscore = 0, whackedscore = 20, bonusscore = 25, penaltyscore = 0,
          endscore = 45, playresult = WHACK, selection = CHR ''3''\<rparr>],
      missedcount = 0\<rparr>" "- 1" 7 "CHR ''q''" 0]
  by (simp add: running_total_def)


section \<open>The handshake and the recycling of a row\<close>

lemma wait_dispcond_ack_first:
  "molestatus p \<noteq> displayack p \<Longrightarrow>
   wait_dispcond p (Woken display_ack # ws) = Inr (display_ack p, ws)"
  by (simp add: display_ack_def wait_dispcond_done)

lemma set_mole_status_ack_first:
  assumes "status_assert (molestatus p) newstatus" and "waits_for_ack newstatus"
    and "displayack p \<noteq> newstatus"
  shows "set_mole_status p newstatus (Woken display_ack # ws)
           = Inr (p\<lparr>molestatus := newstatus, displayack := newstatus\<rparr>, ws)"
proof -
  from assms(2) have n: "newstatus \<noteq> AVAILABLE" by (auto simp: waits_for_ack_def)
  from assms(3) have ne: "molestatus (p\<lparr>molestatus := newstatus\<rparr>)
      \<noteq> displayack (p\<lparr>molestatus := newstatus\<rparr>)"
    by auto
  from assms(1,2) n
  have "set_mole_status p newstatus (Woken display_ack # ws)
      = wait_dispcond (p\<lparr>molestatus := newstatus\<rparr>) (Woken display_ack # ws)"
    by (simp add: set_mole_status_def Let_def)
  also have "\<dots> = Inr (display_ack (p\<lparr>molestatus := newstatus\<rparr>), ws)"
    by (rule wait_dispcond_ack_first[OF ne])
  finally show ?thesis by (simp add: display_ack_def)
qed

text \<open>
  Claim C2. When the new status is \<open>HIDING\<close>, \<open>UP\<close>, \<open>WHACKED\<close>, \<open>EXPIRED\<close> or
  \<open>TERMINATING\<close>, \<open>set_mole_status\<close> returns only with the acknowledgment mirror
  \<open>displayack\<close> equal to the status it wrote: it does not return while the mirror
  differs, a wake-up that changed nothing sends it back into the wait, and the wake-up
  after the bridge's acknowledgment lets it return. For \<open>AVAILABLE\<close>, \<open>ASSIGNED\<close>,
  \<open>SCARED\<close> and \<open>COMPLETE\<close> it returns at once, consuming no wake-up.
\<close>

theorem set_mole_status_handshake:
  assumes "status_assert (molestatus p) newstatus"
  shows
   "(newstatus \<in> {HIDING, UP, WHACKED, EXPIRED, TERMINATING} \<longrightarrow>
        (\<forall>p' rest. keeps_status ws \<longrightarrow> set_mole_status p newstatus ws = Inr (p', rest) \<longrightarrow>
            displayack p' = newstatus \<and> molestatus p' = newstatus)
      \<and> (displayack p = newstatus \<longrightarrow>
            set_mole_status p newstatus ws = Inr (p\<lparr>molestatus := newstatus\<rparr>, ws))
      \<and> (displayack p \<noteq> newstatus \<longrightarrow>
            set_mole_status p newstatus [] = Inl Blocked
          \<and> set_mole_status p newstatus (Woken (\<lambda>q. q) # ws) = set_mole_status p newstatus ws
          \<and> set_mole_status p newstatus (Woken display_ack # ws)
              = Inr (p\<lparr>molestatus := newstatus, displayack := newstatus\<rparr>, ws)))
    \<and> (newstatus \<in> {AVAILABLE, ASSIGNED, SCARED, COMPLETE} \<longrightarrow>
        set_mole_status p newstatus ws
          = Inr ((if newstatus = AVAILABLE then zero_MoleCommRecord else p)
                   \<lparr>molestatus := newstatus\<rparr>, ws))"
proof -
  let ?p2 = "p\<lparr>molestatus := newstatus\<rparr>"
  have nowait: "newstatus \<in> {AVAILABLE, ASSIGNED, SCARED, COMPLETE} \<longrightarrow>
        set_mole_status p newstatus ws
          = Inr ((if newstatus = AVAILABLE then zero_MoleCommRecord else p)
                   \<lparr>molestatus := newstatus\<rparr>, ws)"
    using assms by (auto simp: set_mole_status_def waits_for_ack_def Let_def)
  have wait: "set_mole_status p newstatus vs = wait_dispcond ?p2 vs"
    if "newstatus \<in> {HIDING, UP, WHACKED, EXPIRED, TERMINATING}" for vs
    using assms that by (auto simp: set_mole_status_def waits_for_ack_def Let_def)
  have a: "\<forall>p' rest. keeps_status ws \<longrightarrow> set_mole_status p newstatus ws = Inr (p', rest) \<longrightarrow>
            displayack p' = newstatus \<and> molestatus p' = newstatus"
    if w: "newstatus \<in> {HIDING, UP, WHACKED, EXPIRED, TERMINATING}"
  proof (intro allI impI)
    fix p' rest
    assume k: "keeps_status ws" and r: "set_mole_status p newstatus ws = Inr (p', rest)"
    have m: "molestatus p' = newstatus" by (rule set_mole_status_result[OF r k])
    show "displayack p' = newstatus \<and> molestatus p' = newstatus"
    proof (cases "waits_for_ack newstatus")
      case True
      with r assms have "wait_dispcond ?p2 ws = Inr (p', rest)"
        by (simp add: set_mole_status_def Let_def waits_for_ack_def split: if_splits)
      from wait_dispcond_acked[OF this] m show ?thesis by simp
    next
      case False
      with w show ?thesis by (simp add: waits_for_ack_def)
    qed
  qed
  have b: "set_mole_status p newstatus ws = Inr (?p2, ws)"
    if "newstatus \<in> {HIDING, UP, WHACKED, EXPIRED, TERMINATING}" "displayack p = newstatus"
    unfolding wait[OF that(1)] using that(2) by (simp add: wait_dispcond_done)
  have c: "set_mole_status p newstatus [] = Inl Blocked
          \<and> set_mole_status p newstatus (Woken (\<lambda>q. q) # ws) = set_mole_status p newstatus ws
          \<and> set_mole_status p newstatus (Woken display_ack # ws)
              = Inr (p\<lparr>molestatus := newstatus, displayack := newstatus\<rparr>, ws)"
    if "newstatus \<in> {HIDING, UP, WHACKED, EXPIRED, TERMINATING}" "displayack p \<noteq> newstatus"
  proof -
    from that(2) have ne: "molestatus ?p2 \<noteq> displayack ?p2" by auto
    from ne show ?thesis
      unfolding wait[OF that(1)] wait_dispcond_ack_first[OF ne]
      by (simp add: display_ack_def)
  qed
  show ?thesis
  proof (rule conjI)
    show "newstatus \<in> {HIDING, UP, WHACKED, EXPIRED, TERMINATING} \<longrightarrow>
        (\<forall>p' rest. keeps_status ws \<longrightarrow> set_mole_status p newstatus ws = Inr (p', rest) \<longrightarrow>
            displayack p' = newstatus \<and> molestatus p' = newstatus)
      \<and> (displayack p = newstatus \<longrightarrow>
            set_mole_status p newstatus ws = Inr (p\<lparr>molestatus := newstatus\<rparr>, ws))
      \<and> (displayack p \<noteq> newstatus \<longrightarrow>
            set_mole_status p newstatus [] = Inl Blocked
          \<and> set_mole_status p newstatus (Woken (\<lambda>q. q) # ws) = set_mole_status p newstatus ws
          \<and> set_mole_status p newstatus (Woken display_ack # ws)
              = Inr (p\<lparr>molestatus := newstatus, displayack := newstatus\<rparr>, ws))"
    proof (rule impI)
      assume w: "newstatus \<in> {HIDING, UP, WHACKED, EXPIRED, TERMINATING}"
      from a[OF w] b[OF w] c[OF w] show "(\<forall>p' rest. keeps_status ws \<longrightarrow> set_mole_status p newstatus ws = Inr (p', rest) \<longrightarrow>
            displayack p' = newstatus \<and> molestatus p' = newstatus)
      \<and> (displayack p = newstatus \<longrightarrow>
            set_mole_status p newstatus ws = Inr (p\<lparr>molestatus := newstatus\<rparr>, ws))
      \<and> (displayack p \<noteq> newstatus \<longrightarrow>
            set_mole_status p newstatus [] = Inl Blocked
          \<and> set_mole_status p newstatus (Woken (\<lambda>q. q) # ws) = set_mole_status p newstatus ws
          \<and> set_mole_status p newstatus (Woken display_ack # ws)
              = Inr (p\<lparr>molestatus := newstatus, displayack := newstatus\<rparr>, ws))"
        by (intro conjI impI; blast)
    qed
  qed (rule nowait)
qed


theorem set_mole_status_handshake_witness:
  "status_assert ASSIGNED HIDING
   \<and> HIDING \<in> {HIDING, UP, WHACKED, EXPIRED, TERMINATING}
   \<and> set_mole_status (zero_MoleCommRecord\<lparr>molestatus := ASSIGNED\<rparr>) HIDING [] = Inl Blocked
   \<and> set_mole_status (zero_MoleCommRecord\<lparr>molestatus := ASSIGNED\<rparr>) HIDING
         [Woken (\<lambda>q. q), Woken display_ack]
       = Inr (zero_MoleCommRecord\<lparr>molestatus := HIDING, displayack := HIDING\<rparr>, [])
   \<and> status_assert HIDING SCARED
   \<and> SCARED \<in> {AVAILABLE, ASSIGNED, SCARED, COMPLETE}
   \<and> set_mole_status (zero_MoleCommRecord\<lparr>molestatus := HIDING, displayack := HIDING\<rparr>)
         SCARED []
       = Inr (zero_MoleCommRecord\<lparr>molestatus := SCARED, displayack := HIDING\<rparr>, [])"
proof -
  let ?p = "zero_MoleCommRecord\<lparr>molestatus := ASSIGNED\<rparr>"
  let ?q = "zero_MoleCommRecord\<lparr>molestatus := HIDING, displayack := HIDING\<rparr>"
  have h1: "status_assert (molestatus ?p) HIDING" by (simp add: status_assert_def)
  have h2: "status_assert (molestatus ?q) SCARED" by (simp add: status_assert_def)
  have d: "displayack ?p \<noteq> HIDING" by (simp add: zero_MoleCommRecord_def)
  from set_mole_status_handshake[OF h1, of "[Woken display_ack]"] d
  have a: "set_mole_status ?p HIDING [] = Inl Blocked"
    and b: "set_mole_status ?p HIDING [Woken (\<lambda>q. q), Woken display_ack]
            = set_mole_status ?p HIDING [Woken display_ack]"
    by simp_all
  from set_mole_status_handshake[OF h1, of "[]"] d
  have c: "set_mole_status ?p HIDING [Woken display_ack]
            = Inr (?p\<lparr>molestatus := HIDING, displayack := HIDING\<rparr>, [])"
    by simp
  from set_mole_status_handshake[OF h2, of "[]"]
  have e: "set_mole_status ?q SCARED [] = Inr (?q\<lparr>molestatus := SCARED\<rparr>, [])"
    by simp
  from a b c e h1 h2 show ?thesis by (simp add: zero_MoleCommRecord_def)
qed




section \<open>Up time and deadline\<close>


lemma mole_uptime_nonneg:
  assumes "0 \<le> r" "0 \<le> d"
  shows "mole_uptime r d = (r mod 5000 + 3000) * d div 10000"
  using assms by (simp add: mole_uptime_def c_mod_nonneg c_div_nonneg)

text \<open>
  Claim C7, as amended. For every random draw \<open>r \<ge> 0\<close> and every cycle duration
  \<open>d \<ge> 0\<close> the chosen up time is \<open>((r mod 5000) + 3000) * d / 10000\<close> under integer
  division; it is at most 80% of \<open>d\<close> and at least 30% of \<open>d\<close> rounded down to a whole
  millisecond, so less than a millisecond short of 30% of \<open>d\<close>.
\<close>

theorem mole_uptime_bounds:
  assumes "0 \<le> r" and "0 \<le> d"
  shows "mole_uptime r d = (r mod 5000 + 3000) * d div 10000
       \<and> 3 * d div 10 \<le> mole_uptime r d
       \<and> 3 * d - 10 < 10 * mole_uptime r d
       \<and> 10 * mole_uptime r d \<le> 8 * d"
proof -
  define x where "x = r mod 5000 + 3000"
  have x: "3000 \<le> x" "x < 8000" by (simp_all add: x_def)
  have u: "mole_uptime r d = x * d div 10000"
    unfolding x_def by (rule mole_uptime_nonneg[OF assms])
  have lo: "3000 * d \<le> x * d" using x(1) assms(2) by (simp add: mult_right_mono)
  have hi: "x * d \<le> 8000 * d" using x(2) assms(2) by (simp add: mult_right_mono)
  have a: "3 * d div 10 \<le> x * d div 10000"
  proof -
    have "3 * d div 10 = 3000 * d div 10000" by simp
    also have "\<dots> \<le> x * d div 10000" using lo by (rule zdiv_mono1) simp
    finally show ?thesis .
  qed
  have b: "10 * (x * d div 10000) \<le> 8 * d"
  proof -
    have "x * d div 10000 \<le> 8000 * d div 10000" using hi by (rule zdiv_mono1) simp
    then show ?thesis by simp
  qed
  have c: "3 * d - 10 < 10 * (3 * d div 10)"
    by presburger
  from a b c show ?thesis unfolding u x_def by simp
qed


theorem mole_uptime_bounds_witness:
  "(0::int) \<le> 4999 \<and> (0::int) \<le> 6500 \<and> mole_uptime 4999 6500 = 5199
   \<and> 3 * 6500 div 10 \<le> mole_uptime 4999 6500 \<and> 10 * mole_uptime 4999 6500 \<le> 8 * 6500"
  using mole_uptime_bounds[of 4999 6500] by simp

text \<open>
  The claim as stated fails where the division truncates: with the draw 0 and a cycle of
  1001 msec the up time is 300 msec, less than 30% of 1001.
\<close>

theorem mole_uptime_below_30_percent:
  "mole_uptime 0 1001 = 300 \<and> 10 * mole_uptime 0 1001 < 3 * 1001"
  by (simp add: mole_uptime_def c_div_def c_mod_def)

lemma waituntil_normal:
  assumes "0 \<le> tv_nsec s" "tv_nsec s < 1000000000" "0 \<le> up"
  shows "waituntil s up =
     \<lparr>tv_sec = tv_sec s + (up mod 1000 * 1000000 + tv_nsec s) div 1000000000 + up div 1000,
      tv_nsec = (up mod 1000 * 1000000 + tv_nsec s) mod 1000000000\<rparr>"
proof -
  have m: "c_mod up 1000 = up mod 1000" using assms(3) by (simp add: c_mod_nonneg)
  have n: "0 \<le> up mod 1000 * 1000000 + tv_nsec s" using assms(1) by simp
  show ?thesis
    unfolding waituntil_def m
    using n assms(3) by (simp add: c_mod_nonneg c_div_nonneg)
qed

text \<open>
  Claim C8. For every clock reading with \<open>tv_nsec\<close> in \<open>[0, 10^9)\<close> and every up time
  \<open>up \<ge> 0\<close> (in msec), the deadline \<open>waituntil\<close> is a normalized timespec whose value
  in nanoseconds is the reading plus \<open>up * 10^6\<close>.
\<close>

theorem waituntil_deadline:
  assumes "0 \<le> tv_nsec s" and "tv_nsec s < 1000000000" and "0 \<le> up"
  shows "0 \<le> tv_nsec (waituntil s up) \<and> tv_nsec (waituntil s up) < 1000000000
       \<and> timespec_ns (waituntil s up) = timespec_ns s + up * 1000000"
proof -
  define x where "x = up mod 1000 * 1000000 + tv_nsec s"
  have "timespec_ns (waituntil s up)
      = tv_sec s * 1000000000 + (x div 1000000000 * 1000000000 + x mod 1000000000)
        + up div 1000 * 1000000000"
    unfolding waituntil_normal[OF assms] timespec_ns_def x_def by (simp add: algebra_simps)
  also have "\<dots> = tv_sec s * 1000000000 + x + up div 1000 * 1000000000"
    by simp
  also have "\<dots> = tv_sec s * 1000000000 + tv_nsec s
      + (up div 1000 * 1000 + up mod 1000) * 1000000"
    unfolding x_def by (simp only: distrib_right mult.assoc)
  also have "\<dots> = timespec_ns s + up * 1000000"
    by (simp only: div_mult_mod_eq timespec_ns_def)
  finally have t: "timespec_ns (waituntil s up) = timespec_ns s + up * 1000000" .
  have "0 \<le> tv_nsec (waituntil s up)" "tv_nsec (waituntil s up) < 1000000000"
    unfolding waituntil_normal[OF assms] by simp_all
  with t show ?thesis by simp
qed

theorem waituntil_deadline_witness:
  "(0::int) \<le> 999999999 \<and> (999999999::int) < 1000000000 \<and> (0::int) \<le> 5199
   \<and> waituntil \<lparr>tv_sec = 1700000000, tv_nsec = 999999999\<rparr> 5199
       = \<lparr>tv_sec = 1700000006, tv_nsec = 198999999\<rparr>
   \<and> timespec_ns \<lparr>tv_sec = 1700000006, tv_nsec = 198999999\<rparr>
       = timespec_ns \<lparr>tv_sec = 1700000000, tv_nsec = 999999999\<rparr> + 5199 * 1000000"
proof -
  have w: "waituntil \<lparr>tv_sec = 1700000000, tv_nsec = 999999999\<rparr> 5199
       = \<lparr>tv_sec = 1700000006, tv_nsec = 198999999\<rparr>"
    by (simp add: waituntil_def c_div_def c_mod_def)
  from waituntil_deadline[of "\<lparr>tv_sec = 1700000000, tv_nsec = 999999999\<rparr>" 5199]
  show ?thesis unfolding w by simp
qed


section \<open>The dispatcher\<close>

lemma whack_loop_eq:
  "whack_loop hk inputkey i whackflag effs ms =
     (map (whacked_row hk inputkey) ms,
      whackflag \<or> list_ex (\<lambda>m. eligible hk inputkey m \<or> nearmiss hk inputkey m) ms,
      effs @ concat (map (whack_effects hk inputkey) (List.enumerate i ms)))"
  by (induction ms arbitrary: i whackflag effs)
     (auto simp: whacked_row_def whack_effects_def)

lemma scare_loop_eq:
  "scare_loop hk inputkey clk i misfiretype ms =
     (map (scared_row clk) (List.enumerate i ms),
      if list_ex (\<lambda>m. molestatus m = HIDING \<and> hk ! nat (hole m) = inputkey) ms
      then TOOSOON else misfiretype)"
  by (induction ms arbitrary: i misfiretype)
     (auto simp: scared_row_def Let_def)


lemma find_misfirehole_found:
  "inputkey \<in> set ks \<Longrightarrow>
   find_misfirehole inputkey i ks - i < length ks \<and> i \<le> find_misfirehole inputkey i ks
   \<and> ks ! (find_misfirehole inputkey i ks - i) = inputkey"
proof (induction ks arbitrary: i)
  case Nil
  then show ?case by simp
next
  case (Cons k ks)
  show ?case
  proof (cases "inputkey = k")
    case True
    then show ?thesis by simp
  next
    case False
    with Cons.prems have "inputkey \<in> set ks" by simp
    from Cons.IH[OF this, of "Suc i"] False show ?thesis
      by (auto simp: Suc_diff_le)
  qed
qed

text \<open>
  Claim C4. For a recognized key that no row accepts (no row is eligible and no near-miss
  row absorbs it), the dispatcher sets the scared flag and a scared timestamp on every row
  that is \<open>HIDING\<close> or \<open>UP\<close> when the misfire branch runs, leaves the other rows alone,
  and appends exactly one penalty record: \<open>TOOSOON\<close> if the hole of some \<open>HIDING\<close> row
  is assigned the pressed key, \<open>MISFIRE\<close> otherwise. The record's hole is the hole the
  key is assigned to.
\<close>

theorem misfire_scares_and_penalises:
  assumes "inputkey \<noteq> CHR 0x00" and "inputkey \<in> set hk"
    and "length hk = MOLEHOLES" and "holes_ok mc" and "holes_ok (others mc)"
    and "list_all (\<lambda>m. \<not> eligible hk inputkey m \<and> \<not> nearmiss hk inputkey m) mc"
  shows "input_key hk clk others inputkey mc st =
     Inr (map (scared_row clk) (List.enumerate 0 (others mc)),
          \<lparr>scores = scores st @
             [\<lparr>ScoreSheetRecord.mole = - 1,
               ScoreSheetRecord.hole = int (find_misfirehole inputkey 0 hk),
               startscore = running_total st,
               missedscore = 0, whackedscore = 0, bonusscore = 0, penaltyscore = 0,
               endscore = running_total st,
               playresult =
                 (if list_ex (\<lambda>m. molestatus m = HIDING \<and> hk ! nat (hole m) = inputkey)
                       (others mc)
                  then TOOSOON else MISFIRE),
               selection = inputkey\<rparr>],
           missedcount = missedcount st\<rparr>,
          [])
     \<and> find_misfirehole inputkey 0 hk < MOLEHOLES
     \<and> hk ! find_misfirehole inputkey 0 hk = inputkey"
proof -
  from assms(6) have none: "\<not> list_ex (\<lambda>m. eligible hk inputkey m \<or> nearmiss hk inputkey m) mc"
    by (auto simp: list_all_iff list_ex_iff)
  from assms(6) have m: "map (whacked_row hk inputkey) mc = mc"
    by (auto simp: list_all_iff whacked_row_def intro: map_idI)
  from assms(6) have e: "concat (map (whack_effects hk inputkey) (List.enumerate 0 mc)) = []"
    by (auto simp: list_all_iff whack_effects_def in_set_enumerate_eq)
  have w: "whack_loop hk inputkey 0 False [] mc = (mc, False, [])"
    unfolding whack_loop_eq using none m e by simp
  let ?ty = "if list_ex (\<lambda>m. molestatus m = HIDING \<and> hk ! nat (hole m) = inputkey) (others mc)
             then TOOSOON else MISFIRE"
  have ty: "?ty = MISFIRE \<or> ?ty = TOOSOON" by simp
  have c: "compute_score st (- 1) (int (find_misfirehole inputkey 0 hk)) inputkey 0 ?ty =
     Inr (\<lparr>scores = scores st @
            [\<lparr>ScoreSheetRecord.mole = - 1,
              ScoreSheetRecord.hole = int (find_misfirehole inputkey 0 hk),
              startscore = running_total st,
              missedscore = 0, whackedscore = 0, bonusscore = 0, penaltyscore = 0,
              endscore = running_total st,
              playresult = ?ty, selection = inputkey\<rparr>],
          missedcount = missedcount st\<rparr>, int (length (scores st)))"
    by (rule compute_score_penalty[OF ty])
  have i: "input_key hk clk others inputkey mc st =
     Inr (map (scared_row clk) (List.enumerate 0 (others mc)),
          \<lparr>scores = scores st @
             [\<lparr>ScoreSheetRecord.mole = - 1,
               ScoreSheetRecord.hole = int (find_misfirehole inputkey 0 hk),
               startscore = running_total st,
               missedscore = 0, whackedscore = 0, bonusscore = 0, penaltyscore = 0,
               endscore = running_total st,
               playresult = ?ty, selection = inputkey\<rparr>],
           missedcount = missedcount st\<rparr>,
          [])"
    unfolding input_key_def w scare_loop_eq using assms(1,2) by (simp add: c)
  from find_misfirehole_found[OF assms(2), of 0] assms(3)
  have f: "find_misfirehole inputkey 0 hk < MOLEHOLES
     \<and> hk ! find_misfirehole inputkey 0 hk = inputkey"
    by simp
  from i f show ?thesis by (rule conjI)
qed


theorem misfire_scares_and_penalises_witness:
  "CHR ''9'' \<noteq> CHR 0x00 \<and> CHR ''9'' \<in> set holekeys \<and> length holekeys = MOLEHOLES
   \<and> holes_ok example_table
   \<and> list_all (\<lambda>m. \<not> eligible holekeys (CHR ''9'') m \<and> \<not> nearmiss holekeys (CHR ''9'') m)
        example_table
   \<and> input_key holekeys example_clock (\<lambda>t. t) (CHR ''9'') example_table initial_scores =
     Inr ([(example_table ! 0)\<lparr>scaredflag := 1, scaredtime := \<lparr>tv_sec = 100, tv_nsec = 0\<rparr>\<rparr>,
           (example_table ! 1)\<lparr>scaredflag := 1, scaredtime := \<lparr>tv_sec = 100, tv_nsec = 1\<rparr>\<rparr>,
           example_table ! 2],
          \<lparr>scores =
             [\<lparr>ScoreSheetRecord.mole = - 1, ScoreSheetRecord.hole = 2, startscore = 0,
               missedscore = 0, whackedscore = 0, bonusscore = 0, penaltyscore = 0,
               endscore = 0, playresult = TOOSOON, selection = CHR ''9''\<rparr>],
           missedcount = 0\<rparr>,
          [])"
proof -
  have h: "CHR ''9'' \<noteq> CHR 0x00" "CHR ''9'' \<in> set holekeys"
    "length holekeys = MOLEHOLES" "holes_ok example_table"
    "holes_ok ((\<lambda>t. t) example_table)"
    "list_all (\<lambda>m. \<not> eligible holekeys (CHR ''9'') m \<and> \<not> nearmiss holekeys (CHR ''9'') m)
        example_table"
    by (simp_all add: MOLEHOLES_def holes_ok_def example_table_def eligible_def nearmiss_def
        zero_MoleCommRecord_def holekeys_def)
  have f: "find_misfirehole (CHR ''9'') 0 holekeys = 2" by (simp add: holekeys_def)
  have t: "list_ex (\<lambda>m. molestatus m = HIDING \<and> holekeys ! nat (hole m) = CHR ''9'')
             example_table"
    by (simp add: example_table_def holekeys_def)
  from misfire_scares_and_penalises[of "CHR ''9''" "holekeys" example_table "\<lambda>t. t"
      example_clock initial_scores, OF h]
  have "input_key holekeys example_clock (\<lambda>t. t) (CHR ''9'') example_table initial_scores =
     Inr ([(example_table ! 0)\<lparr>scaredflag := 1, scaredtime := \<lparr>tv_sec = 100, tv_nsec = 0\<rparr>\<rparr>,
           (example_table ! 1)\<lparr>scaredflag := 1, scaredtime := \<lparr>tv_sec = 100, tv_nsec = 1\<rparr>\<rparr>,
           example_table ! 2],
          \<lparr>scores =
             [\<lparr>ScoreSheetRecord.mole = - 1, ScoreSheetRecord.hole = 2, startscore = 0,
               missedscore = 0, whackedscore = 0, bonusscore = 0, penaltyscore = 0,
               endscore = 0, playresult = TOOSOON, selection = CHR ''9''\<rparr>],
           missedcount = 0\<rparr>,
          [])"
    unfolding f using t
    by (simp add: example_table_def scared_row_def example_clock_def initial_scores_def
        running_total_def zero_MoleCommRecord_def)
  with h(1,2,3,4,6) show ?thesis by simp
qed

lemma whack_effects_none:
  "\<forall>j < length ms. \<not> eligible hk inputkey (ms ! j) \<Longrightarrow>
   concat (map (whack_effects hk inputkey) (List.enumerate i ms)) = []"
  by (auto simp: whack_effects_def in_set_enumerate_eq)

lemma whack_effects_single:
  assumes "k < length ms" and "eligible hk inputkey (ms ! k)"
    and "\<forall>j < length ms. j \<noteq> k \<longrightarrow> \<not> eligible hk inputkey (ms ! j)"
  shows "concat (map (whack_effects hk inputkey) (List.enumerate i ms))
           = [Cancel (i + k), SignalKey (i + k)]"
  using assms
proof (induction ms arbitrary: i k)
  case Nil
  then show ?case by simp
next
  case (Cons m ms)
  show ?case
  proof (cases k)
    case 0
    from Cons.prems(3) 0 have "\<forall>j < length ms. \<not> eligible hk inputkey (ms ! j)"
      by fastforce
    from whack_effects_none[OF this] Cons.prems(2) 0 show ?thesis
      by (simp add: whack_effects_def)
  next
    case (Suc k')
    from Cons.prems(1) Suc have a: "k' < length ms" by simp
    from Cons.prems(2) Suc have b: "eligible hk inputkey (ms ! k')" by simp
    from Cons.prems(3) Suc
    have c: "\<forall>j < length ms. j \<noteq> k' \<longrightarrow> \<not> eligible hk inputkey (ms ! j)"
      by fastforce
    from Cons.prems(3) Suc have d: "\<not> eligible hk inputkey m" by fastforce
    from Cons.IH[OF a b c, of "Suc i"] d Suc show ?thesis
      by (simp add: whack_effects_def)
  qed
qed

lemma whacked_rows_single:
  assumes "k < length ms" and "eligible hk inputkey (ms ! k)"
    and "\<forall>j < length ms. j \<noteq> k \<longrightarrow> \<not> eligible hk inputkey (ms ! j)"
  shows "map (whacked_row hk inputkey) ms
           = ms[k := (ms ! k)\<lparr>animcancelled := 1, keystruck := inputkey\<rparr>]"
  using assms by (intro nth_equalityI) (auto simp: whacked_row_def nth_list_update)

lemma key_wait_done:
  "keystruck p \<noteq> CHR 0x00 \<or> condretval \<noteq> 0 \<Longrightarrow>
   key_wait p condretval kws = Inr (p, condretval, kws)"
  by (cases "(p, condretval, kws)" rule: key_wait.cases) auto

lemma dispatch_single_eligible:
  assumes "inputkey \<noteq> CHR 0x00" and "inputkey \<in> set hk"
    and "k < length mc" and "eligible hk inputkey (mc ! k)"
    and "\<forall>j < length mc. j \<noteq> k \<longrightarrow> \<not> eligible hk inputkey (mc ! j)"
  shows "input_key hk clk others inputkey mc st =
           Inr (mc[k := (mc ! k)\<lparr>animcancelled := 1, keystruck := inputkey\<rparr>], st,
                [Cancel k, SignalKey k])"
proof -
  let ?p = "(mc ! k)\<lparr>animcancelled := 1, keystruck := inputkey\<rparr>"
  from assms(3,4) have ex: "list_ex (\<lambda>m. eligible hk inputkey m \<or> nearmiss hk inputkey m) mc"
    by (auto simp: list_ex_iff)
  have w: "whack_loop hk inputkey 0 False [] mc = (mc[k := ?p], True, [Cancel k, SignalKey k])"
    unfolding whack_loop_eq
    using ex whacked_rows_single[OF assms(3,4,5)] whack_effects_single[OF assms(3,4,5), of 0]
    by simp
  show ?thesis
    unfolding input_key_def w using assms(1,2) by simp
qed

section \<open>Checkpoints of the presentations\<close>

lemma hiding_loop_ends:
  "d \<noteq> - 1 \<Longrightarrow> nat timeremaining div 600 < fuel \<Longrightarrow> hiding_loop fuel rnd k d timeremaining"
proof (induction fuel arbitrary: k timeremaining)
  case 0
  then show ?case by simp
next
  case (Suc fuel)
  show ?case
  proof (cases "timeremaining > 0 \<and> \<not> timeremaining < 600")
    case False
    with Suc.prems(1) show ?thesis by auto
  next
    case True
    define t1 where "t1 = timeremaining - 600"
    define t where "t = c_mod (int (rnd (k + 2))) 1200 + 800"
    define targettime where "targettime = (if t > t1 \<and> d \<noteq> - 1 then t1 else t)"
    have t: "800 \<le> t" by (simp add: t_def c_mod_nonneg)
    from True have t1: "0 \<le> t1" by (simp add: t1_def)
    from t t1 Suc.prems(1) have tt: "0 \<le> targettime" "targettime \<le> t1"
      by (auto simp: targettime_def)
    from True have "nat timeremaining = nat t1 + 600"
      unfolding t1_def by linarith
    then have "nat timeremaining div 600 = Suc (nat t1 div 600)"
      by simp
    with Suc.prems(2) have "nat t1 div 600 < fuel" by simp
    moreover from tt t1 have "nat (t1 - targettime) div 600 \<le> nat t1 div 600"
      by (intro div_le_mono) simp
    ultimately have "nat (t1 - targettime) div 600 < fuel" by simp
    then have "hiding_loop fuel rnd (k + 3) d (t1 - targettime)"
      by (rule Suc.IH[OF Suc.prems(1)])
    moreover have "hiding_loop (Suc fuel) rnd k d timeremaining
        = hiding_loop fuel rnd (k + 3) d (t1 - targettime)"
      using True by (simp add: Let_def t1_def t_def targettime_def)
    ultimately show ?thesis by simp
  qed
qed




lemma launched_hiding:
  "display_status_change hk scs old pnew m = Inr (m', True) \<Longrightarrow> molestatus pnew = HIDING \<Longrightarrow>
   animspec m' = HidingAnim\<lparr>AnimationSpec.hole := hole pnew,
                   AnimationSpec.duration := duration pnew - uptime pnew,
                   AnimationSpec.mole := mole pnew\<rparr>"
  unfolding display_status_change_def Let_def
  by (simp split: if_splits) (auto simp: display_ack_def)

lemma launched_up:
  "display_status_change hk scs old pnew m = Inr (m', True) \<Longrightarrow> molestatus pnew = UP \<Longrightarrow>
   animspec m' = PopupAnim\<lparr>AnimationSpec.hole := hole pnew,
                   AnimationSpec.duration := uptime pnew,
                   AnimationSpec.mole := mole pnew\<rparr>"
  unfolding display_status_change_def Let_def
  by (simp split: if_splits) (auto simp: display_ack_def)

lemma launched_whacked:
  "display_status_change hk scs old pnew m = Inr (m', True) \<Longrightarrow> molestatus pnew = WHACKED \<Longrightarrow>
   animspec m' = WhackedAnim\<lparr>AnimationSpec.hole := hole pnew,
                   score1 := whackedscore (scs ! nat (scoreidx m)),
                   score2 := bonusscore (scs ! nat (scoreidx m)),
                   AnimationSpec.mole := mole pnew\<rparr>"
  unfolding display_status_change_def Let_def
  by (simp split: if_splits) (auto simp: display_ack_def)

lemma launched_expired:
  "display_status_change hk scs old pnew m = Inr (m', True) \<Longrightarrow> molestatus pnew = EXPIRED \<Longrightarrow>
   animspec m' = EscapedAnim\<lparr>AnimationSpec.hole := hole pnew,
                   score1 := missedscore (scs ! nat (scoreidx m)),
                   score2 := 0,
                   AnimationSpec.mole := mole pnew\<rparr>"
  unfolding display_status_change_def Let_def
  by (simp split: if_splits) (auto simp: display_ack_def)

lemma launched_scared:
  "display_status_change hk scs old pnew m = Inr (m', True) \<Longrightarrow> molestatus pnew = SCARED \<Longrightarrow>
   animspec m' = UpScaredAnim\<lparr>AnimationSpec.hole := hole pnew,
                   AnimationSpec.mole := mole pnew\<rparr>
   \<or> animspec m' = MisfireScaredAnim\<lparr>AnimationSpec.hole := hole pnew,
                       AnimationSpec.mole := mole pnew\<rparr>
   \<or> animspec m' = HideScaredAnim\<lparr>AnimationSpec.hole := hole pnew,
                       AnimationSpec.mole := mole pnew\<rparr>"
  unfolding display_status_change_def Let_def
  by (simp split: if_splits) (auto simp: display_ack_def)

lemma launched_other:
  "display_status_change hk scs old pnew m = Inr (m', True) \<Longrightarrow>
   molestatus pnew = HIDING \<or> molestatus pnew = UP \<or> molestatus pnew = WHACKED
   \<or> molestatus pnew = EXPIRED \<or> molestatus pnew = SCARED"
  unfolding display_status_change_def Let_def
  by (cases "molestatus pnew") (simp_all split: if_splits)


lemma display_status_change_launched:
  assumes "display_status_change hk scs old pnew m = Inr (m', True)"
  shows "List.member bridge_kinds
           (animationtype (animspec m'), syncpoints (animspec m'), synccount (animspec m'))"
proof -
  from launched_other[OF assms] consider
    "molestatus pnew = HIDING" | "molestatus pnew = UP" | "molestatus pnew = WHACKED"
    | "molestatus pnew = EXPIRED" | "molestatus pnew = SCARED"
    by blast
  then show ?thesis
  proof cases
    case 1
    from launched_hiding[OF assms 1] show ?thesis
      by (simp add: HidingAnim_def bridge_kinds_def)
  next
    case 2
    from launched_up[OF assms 2] show ?thesis
      by (simp add: PopupAnim_def bridge_kinds_def)
  next
    case 3
    from launched_whacked[OF assms 3] show ?thesis
      by (simp add: WhackedAnim_def bridge_kinds_def)
  next
    case 4
    from launched_expired[OF assms 4] show ?thesis
      by (simp add: EscapedAnim_def bridge_kinds_def)
  next
    case 5
    from launched_scared[OF assms 5] show ?thesis
      by (elim disjE)
         (simp_all add: UpScaredAnim_def MisfireScaredAnim_def HideScaredAnim_def
            bridge_kinds_def)
  qed
qed

lemma popup_loop_once: "0 < fuel \<Longrightarrow> popup_loop fuel ANIMPOPUP = [1, 2, 3, 4, 5, 6]"
  by (cases fuel) (simp_all add: popup_pass_def)

lemma sync_discipline_launched:
  assumes "List.member bridge_kinds (animationtype a, syncpoints a, synccount a)"
    and "0 < fuel"
    and "animationtype a = ANIMHIDING \<longrightarrow>
           AnimationSpec.duration a \<noteq> - 1 \<and> nat (AnimationSpec.duration a) div 600 < fuel"
  shows "sync_discipline a (animation_thread fuel rnd a)"
proof -
  from assms(1) consider
    "animationtype a = ANIMHIDING" "syncpoints a = 2"
    | "animationtype a = ANIMPOPUP" "syncpoints a = 6"
    | "animationtype a = ANIMWHACKED" "syncpoints a = 3"
    | "animationtype a = ANIMESCAPED" "syncpoints a = 3"
    | "animationtype a = ANIMUPSCARED" "syncpoints a = 2"
    | "animationtype a = ANIMMISFIRESCARED" "syncpoints a = 2"
    by (auto simp: bridge_kinds_def)
  then show ?thesis
  proof cases
    case 1
    with assms(3) have "hiding_loop fuel rnd 0 (AnimationSpec.duration a) (AnimationSpec.duration a)"
      by (simp add: hiding_loop_ends)
    with 1 show ?thesis by (simp add: sync_discipline_def animation_thread_def)
  next
    case 2
    with assms(2) show ?thesis
      by (simp add: sync_discipline_def animation_thread_def popup_loop_once)
  qed (simp_all add: sync_discipline_def animation_thread_def)
qed

lemma cancel_animations_monotone:
  "list_all2 (\<lambda>a b. synccount (animspec a) \<le> synccount (animspec b)
                  \<and> syncpoints (animspec b) = syncpoints (animspec a)
                  \<and> (b = a \<or> (0 < synccount (animspec a)
                              \<and> synccount (animspec a) < syncpoints (animspec a)
                              \<and> synccount (animspec b) = syncpoints (animspec a))))
     ms (fst (cancel_animations i ms))"
proof (induction ms arbitrary: i)
  case Nil
  then show ?case by simp
next
  case (Cons m ms)
  from Cons.IH[of "Suc i"] show ?case
    by (cases "cancel_animations (Suc i) ms")
       (simp add: cancel_active_def force_finished_def)
qed

lemma whack_loop_keeps_animspec:
  "map animspec (fst (whack_loop hk inputkey i whackflag effs ms)) = map animspec ms"
  by (simp add: whack_loop_eq whacked_row_def comp_def)


text \<open>
  Claim C6, as amended. Every presentation that the display bridge launches starts with
  the checkpoint count 0 and, when it runs to its end (it is given at least one pass, and
  a hiding presentation has a duration other than -1 and enough passes to use it up), the
  values it writes to \<open>synccount\<close> start at 1, increase strictly, never exceed the
  declared \<open>syncpoints\<close> and end with \<open>syncpoints\<close>. The bridge's force-marking of a
  cancelled presentation never lowers \<open>synccount\<close>: it is done only while
  \<open>0 < synccount < syncpoints\<close> and sets \<open>synccount\<close> to \<open>syncpoints\<close>; the
  dispatcher's cancellation leaves the descriptor as it is.
\<close>

theorem bridge_presentation_checkpoints:
  assumes "display_status_change hk scs old pnew m = Inr (m', True)"
    and "0 < fuel"
    and "animationtype (animspec m') = ANIMHIDING \<longrightarrow>
           AnimationSpec.duration (animspec m') \<noteq> - 1
           \<and> nat (AnimationSpec.duration (animspec m')) div 600 < fuel"
  shows "synccount (animspec m') = 0
     \<and> sync_discipline (animspec m') (animation_thread fuel rnd (animspec m'))
     \<and> list_all2 (\<lambda>a b. synccount (animspec a) \<le> synccount (animspec b)
                  \<and> syncpoints (animspec b) = syncpoints (animspec a)
                  \<and> (b = a \<or> (0 < synccount (animspec a)
                              \<and> synccount (animspec a) < syncpoints (animspec a)
                              \<and> synccount (animspec b) = syncpoints (animspec a))))
          rows (fst (cancel_animations i rows))
     \<and> map animspec (fst (whack_loop hk' inputkey j whackflag effs rows)) = map animspec rows"
proof -
  note k = display_status_change_launched[OF assms(1)]
  from k have z: "synccount (animspec m') = 0"
    by (auto simp: bridge_kinds_def)
  from z sync_discipline_launched[OF k assms(2,3)] cancel_animations_monotone
    whack_loop_keeps_animspec
  show ?thesis by blast
qed

theorem bridge_presentation_checkpoints_witness:
  "display_status_change holekeys [] ASSIGNED example_hiding_row example_hiding_row
     = Inr (example_hiding_row
              \<lparr>animspec := HidingAnim\<lparr>AnimationSpec.hole := 2, AnimationSpec.duration := 4550,
                                       AnimationSpec.mole := 1\<rparr>,
                animcancelled := 0, displayack := HIDING\<rparr>, True)
   \<and> (0::nat) < 8
   \<and> nat 4550 div 600 < (8::nat)
   \<and> sync_discipline
         (HidingAnim\<lparr>AnimationSpec.hole := 2, AnimationSpec.duration := 4550,
                       AnimationSpec.mole := 1\<rparr>)
         (animation_thread 8 no_random
            (HidingAnim\<lparr>AnimationSpec.hole := 2, AnimationSpec.duration := 4550,
                          AnimationSpec.mole := 1\<rparr>))
   \<and> fst (cancel_animations 0 example_table)
       = [(example_table ! 0)\<lparr>animcancelled := 1,
             animspec := HidingAnim\<lparr>synccount := 2\<rparr>\<rparr>,
          (example_table ! 1)\<lparr>animcancelled := 1,
             animspec := PopupAnim\<lparr>synccount := 6\<rparr>\<rparr>,
          example_table ! 2]"
proof -
  let ?a = "HidingAnim\<lparr>AnimationSpec.hole := 2, AnimationSpec.duration := 4550,
                        AnimationSpec.mole := 1\<rparr>"
  let ?m' = "example_hiding_row\<lparr>animspec := ?a, animcancelled := 0, displayack := HIDING\<rparr>"
  have d: "display_status_change holekeys [] ASSIGNED example_hiding_row example_hiding_row
     = Inr (?m', True)"
    by (simp add: display_status_change_def example_hiding_row_def display_ack_def
        zero_MoleCommRecord_def)
  have f: "(0::nat) < 8" by simp
  have h: "animationtype (animspec ?m') = ANIMHIDING \<longrightarrow>
           AnimationSpec.duration (animspec ?m') \<noteq> - 1
           \<and> nat (AnimationSpec.duration (animspec ?m')) div 600 < 8"
    by simp
  have c: "fst (cancel_animations 0 example_table)
       = [(example_table ! 0)\<lparr>animcancelled := 1,
             animspec := HidingAnim\<lparr>synccount := 2\<rparr>\<rparr>,
          (example_table ! 1)\<lparr>animcancelled := 1,
             animspec := PopupAnim\<lparr>synccount := 6\<rparr>\<rparr>,
          example_table ! 2]"
    by (simp add: example_table_def cancel_active_def force_finished_def HidingAnim_def
        PopupAnim_def zero_MoleCommRecord_def zero_AnimationSpec_def)
  from bridge_presentation_checkpoints[OF d f h, of no_random]
  have "sync_discipline ?a (animation_thread 8 no_random ?a)" by simp
  with d c show ?thesis by simp
qed

text \<open>
  The claim as stated, for every presentation kind, fails on the presentations of the
  introduction pages: \<open>INSTRPOPUP\<close> declares 2 checkpoints and writes up to 6, starting
  again at 1 on every pass; \<open>SPLASHPOPUP\<close> and \<open>INSTRSCARED\<close> declare 2 and write
  only 1.
\<close>

theorem intro_presentations_off_discipline:
  "animation_thread 1 no_random PopupInstr = [1, 2, 3, 4, 5, 6]
   \<and> syncpoints PopupInstr = 2
   \<and> \<not> sync_discipline PopupInstr (animation_thread 1 no_random PopupInstr)
   \<and> animation_thread 2 no_random PopupInstr = [1, 2, 3, 4, 5, 6, 1, 2, 3, 4, 5, 6]
   \<and> animation_thread 1 no_random PopupSplash = [1]
   \<and> syncpoints PopupSplash = 2
   \<and> \<not> sync_discipline PopupSplash (animation_thread 1 no_random PopupSplash)
   \<and> animation_thread 1 no_random ScaredInstr = [1]
   \<and> \<not> sync_discipline ScaredInstr (animation_thread 1 no_random ScaredInstr)"
proof -
  have two: "(2::nat) = Suc (Suc 0)" by simp
  show ?thesis
    unfolding two
    by (simp add: animation_thread_def PopupInstr_def PopupSplash_def ScaredInstr_def
        popup_pass_def sync_discipline_def)
qed


section \<open>Further properties\<close>

lemma hiding_loop_forever: "\<not> hiding_loop fuel rnd k (- 1) timeremaining"
  by (induction fuel arbitrary: k timeremaining) (simp_all add: Let_def)

text \<open>
  The hiding presentation ends on its own exactly when its duration is not -1: then its
  loop is left after at most \<open>duration / 600 + 1\<close> passes, whatever the random draws,
  and the thread writes the checkpoints 1 and 2; with the duration -1 the loop is never
  left and only the checkpoint 1 is written.
\<close>

theorem hiding_presentation_ends:
  "(d \<noteq> - 1 \<longrightarrow> hiding_loop (Suc (nat d div 600)) rnd 0 d d
        \<and> animation_thread (Suc (nat d div 600)) rnd (HidingAnim\<lparr>AnimationSpec.duration := d\<rparr>)
            = [1, 2])
   \<and> \<not> hiding_loop fuel rnd k (- 1) timeremaining
   \<and> animation_thread fuel rnd (HidingAnim\<lparr>AnimationSpec.duration := - 1\<rparr>) = [1]"
proof -
  have a: "hiding_loop (Suc (nat d div 600)) rnd 0 d d" if "d \<noteq> - 1"
    using that by (rule hiding_loop_ends) simp
  have b: "animation_thread (Suc (nat d div 600)) rnd (HidingAnim\<lparr>AnimationSpec.duration := d\<rparr>)
            = [1, 2]" if "d \<noteq> - 1"
    using a[OF that] by (simp add: animation_thread_def HidingAnim_def del: hiding_loop.simps)
  have c: "animation_thread fuel rnd (HidingAnim\<lparr>AnimationSpec.duration := - 1\<rparr>) = [1]"
    by (simp add: animation_thread_def HidingAnim_def hiding_loop_forever del: hiding_loop.simps)
  from a b c hiding_loop_forever show ?thesis by blast
qed

theorem hiding_presentation_ends_witness:
  "(4550::int) \<noteq> - 1 \<and> hiding_loop 8 no_random 0 4550 4550
   \<and> animation_thread 8 no_random (HidingAnim\<lparr>AnimationSpec.duration := 4550\<rparr>) = [1, 2]"
proof -
  have e: "Suc (nat 4550 div 600) = 8" by simp
  from hiding_presentation_ends[of 4550 no_random] show ?thesis
    unfolding e by (simp del: hiding_loop.simps)
qed

lemma compute_score_nonneg:
  assumes "compute_score st m h key b res = Inr (st', idx)" and "0 \<le> running_total st"
  shows "0 \<le> running_total st'"
proof (cases res)
  case WHACK
  with assms(1) have b: "0 \<le> b" "b < 5"
    by (auto simp: compute_score_def Let_def BONUSSLICES_def split: if_splits)
  then have "nat b \<in> {0, 1, 2, 3, 4}" by auto
  then have "0 \<le> BONUSPOINTS ! nat b"
    by (auto simp: BONUSPOINTS_def)
  with assms(1)[unfolded WHACK compute_score_whack[OF b]] assms(2) show ?thesis
    by (auto simp: running_total_def)
next
  case ESCAPE
  then have "is_miss res" by (simp add: is_miss_def)
  from assms(1)[unfolded compute_score_miss[OF this]] show ?thesis
    by (auto simp: running_total_def)
next
  case SCAREDOFF
  then have "is_miss res" by (simp add: is_miss_def)
  from assms(1)[unfolded compute_score_miss[OF this]] show ?thesis
    by (auto simp: running_total_def)
next
  case MISFIRE
  then have "res = MISFIRE \<or> res = TOOSOON" by simp
  from assms(1)[unfolded compute_score_penalty[OF this]] assms(2) show ?thesis
    by (auto simp: running_total_def)
next
  case TOOSOON
  then have "res = MISFIRE \<or> res = TOOSOON" by simp
  from assms(1)[unfolded compute_score_penalty[OF this]] assms(2) show ?thesis
    by (auto simp: running_total_def)
qed

lemma compute_scores_nonneg:
  "compute_scores st calls = Inr st' \<Longrightarrow> 0 \<le> running_total st \<Longrightarrow> 0 \<le> running_total st'"
proof (induction st calls rule: compute_scores.induct)
  case (1 st)
  then show ?case by simp
next
  case (2 st m h key bonusstage res calls)
  from "2.prems"(1) obtain st1 idx where
    a: "compute_score st m h key bonusstage res = Inr (st1, idx)"
    and b: "compute_scores st1 calls = Inr st'"
    by (auto split: sum.splits)
  from "2.IH"[OF a refl b compute_score_nonneg[OF a "2.prems"(2)]] show ?case .
qed

text \<open>
  After any run of outcomes from the start of the game the running total is not negative.
\<close>

theorem running_total_never_negative:
  "compute_scores initial_scores calls = Inr st \<Longrightarrow> 0 \<le> running_total st"
  by (erule compute_scores_nonneg) (simp add: running_total_def initial_scores_def)


theorem running_total_never_negative_witness:
  "compute_scores initial_scores [(1, 3, CHR 0x00, 0, ESCAPE)]
     = Inr \<lparr>scores =
              [\<lparr>ScoreSheetRecord.mole = 1, ScoreSheetRecord.hole = 3, startscore = 0,
                missedscore = 0, whackedscore = 0, bonusscore = 0, penaltyscore = 0,
                endscore = 0, playresult = ESCAPE, selection = CHR 0x00\<rparr>],
            missedcount = 1\<rparr>
   \<and> 0 \<le> running_total
          \<lparr>scores =
              [\<lparr>ScoreSheetRecord.mole = 1, ScoreSheetRecord.hole = 3, startscore = 0,
                missedscore = 0, whackedscore = 0, bonusscore = 0, penaltyscore = 0,
                endscore = 0, playresult = ESCAPE, selection = CHR 0x00\<rparr>],
            missedcount = 1\<rparr>"
proof -
  have run: "compute_scores initial_scores [(1, 3, CHR 0x00, 0, ESCAPE)]
     = Inr \<lparr>scores =
              [\<lparr>ScoreSheetRecord.mole = 1, ScoreSheetRecord.hole = 3, startscore = 0,
                missedscore = 0, whackedscore = 0, bonusscore = 0, penaltyscore = 0,
                endscore = 0, playresult = ESCAPE, selection = CHR 0x00\<rparr>],
            missedcount = 1\<rparr>"
    by (simp add: compute_score_def initial_scores_def record_results_def missed_score_def
        MISSEDMOLESCORE_def MISSEDMOLEMULTIPLIER_def MISSEDMOLECAP_def Let_def)
  from running_total_never_negative[OF run] run show ?thesis by simp
qed

text \<open>
  A recognized key that no row is eligible for but that belongs to the hole of a row that
  is \<open>EXPIRED\<close>, \<open>WHACKED\<close>, or \<open>UP\<close> with its presentation finished, is absorbed:
  no row changes, no record is appended and no thread is cancelled or signalled.
\<close>

theorem near_miss_absorbs_key:
  assumes "inputkey \<noteq> CHR 0x00" and "inputkey \<in> set hk"
    and "list_all (\<lambda>m. \<not> eligible hk inputkey m) mc"
    and "list_ex (nearmiss hk inputkey) mc"
  shows "input_key hk clk others inputkey mc st = Inr (mc, st, [])"
proof -
  from assms(3) have m: "map (whacked_row hk inputkey) mc = mc"
    by (auto simp: list_all_iff whacked_row_def intro: map_idI)
  from assms(3) have e: "concat (map (whack_effects hk inputkey) (List.enumerate 0 mc)) = []"
    by (auto simp: list_all_iff whack_effects_def in_set_enumerate_eq)
  from assms(4) have x: "list_ex (\<lambda>m. eligible hk inputkey m \<or> nearmiss hk inputkey m) mc"
    by (auto simp: list_ex_iff)
  have w: "whack_loop hk inputkey 0 False [] mc = (mc, True, [])"
    unfolding whack_loop_eq using x m e by simp
  show ?thesis
    unfolding input_key_def w using assms(1,2) by simp
qed

theorem near_miss_absorbs_key_witness:
  "CHR ''5'' \<noteq> CHR 0x00 \<and> CHR ''5'' \<in> set holekeys
   \<and> input_key holekeys example_clock (\<lambda>t. t) (CHR ''5'')
        [zero_MoleCommRecord\<lparr>molestatus := WHACKED, displayack := WHACKED, hole := 4\<rparr>]
        initial_scores
      = Inr ([zero_MoleCommRecord\<lparr>molestatus := WHACKED, displayack := WHACKED, hole := 4\<rparr>],
             initial_scores, [])"
proof -
  let ?mc = "[zero_MoleCommRecord\<lparr>molestatus := WHACKED, displayack := WHACKED, hole := 4\<rparr>]"
  have h: "CHR ''5'' \<noteq> CHR 0x00" "CHR ''5'' \<in> set holekeys"
    "list_all (\<lambda>m. \<not> eligible holekeys (CHR ''5'') m) ?mc"
    "list_ex (nearmiss holekeys (CHR ''5'')) ?mc"
    by (simp_all add: holekeys_def eligible_def nearmiss_def zero_MoleCommRecord_def)
  from near_miss_absorbs_key[OF h, of example_clock "\<lambda>t. t" initial_scores] h(1,2)
  show ?thesis by simp
qed

section \<open>A key for the one mole that is up\<close>

text \<open>
  The row while its controller is inside \<open>set_mole_status(p, UP)\<close>, after the bridge has
  acknowledged \<open>UP\<close> and the pop-up presentation has written its first checkpoint.
\<close>

lemma bridge_step_up:
  "molestatus q = UP \<Longrightarrow>
   bridge_step hk scs HIDING q
     = q\<lparr>animspec := PopupAnim\<lparr>AnimationSpec.hole := hole q,
                         AnimationSpec.duration := uptime q,
                         AnimationSpec.mole := mole q\<rparr>,
         animcancelled := 0, displayack := UP\<rparr>"
  by (simp add: bridge_step_def display_status_change_def display_ack_def)

lemma started_row:
  "presentation_started (bridge_step hk scs HIDING (p\<lparr>molestatus := UP\<rparr>))
     = p\<lparr>molestatus := UP, displayack := UP,
          animspec := PopupAnim\<lparr>AnimationSpec.hole := hole p,
                        AnimationSpec.duration := uptime p,
                        AnimationSpec.mole := mole p, synccount := 1\<rparr>,
          animcancelled := 0\<rparr>"
  by (simp add: bridge_step_up presentation_started_def)

lemma started_row_eligible:
  assumes "0 \<le> hole p" and "hk ! nat (hole p) = inputkey" and "keystruck p \<noteq> inputkey"
  shows "eligible hk inputkey
           (presentation_started (bridge_step hk scs HIDING (p\<lparr>molestatus := UP\<rparr>)))"
  unfolding started_row using assms by (simp add: eligible_def PopupAnim_def)

lemma zero_row_not_eligible: "\<not> eligible hk inputkey zero_MoleCommRecord"
  by (simp add: eligible_def zero_MoleCommRecord_def)

text \<open>
  The path that works: the controller is in the wait for the key when the dispatcher
  handles the key of its row. The controller's call of \<open>set_mole_status(p, UP)\<close> returns
  once the pop-up presentation has started, the timed wait returns 0 on the row as the
  dispatcher's first loop left it, and the controller records one \<open>WHACK\<close> (here at the
  first checkpoint: 20 points and the bonus \<open>BONUSPOINTS[0]\<close>).
\<close>

lemma strike_in_key_wait_is_whack:
  assumes "molestatus p = HIDING" and "displayack p = HIDING"
    and "0 \<le> hole p" and "hole p < int (length hk)"
    and "hk ! nat (hole p) = inputkey" and "inputkey \<noteq> CHR 0x00"
  shows "mole_up hk p [Woken (\<lambda>q. presentation_started (bridge_step hk scs HIDING q))]
           [KeyWake 0 (whacked_row hk inputkey)] st (\<lambda>q. q) [Woken display_ack]
         = Inr (p\<lparr>molestatus := WHACKED, displayack := WHACKED,
                   animspec := PopupAnim\<lparr>AnimationSpec.hole := hole p,
                                 AnimationSpec.duration := uptime p,
                                 AnimationSpec.mole := mole p, synccount := 1\<rparr>,
                   animcancelled := 1, keystruck := inputkey,
                   scoreidx := int (length (scores st))\<rparr>,
                \<lparr>scores = scores st @
                   [\<lparr>ScoreSheetRecord.mole = mole p, ScoreSheetRecord.hole = hole p,
                     startscore = running_total st,
                     missedscore = 0, whackedscore = 20, bonusscore = 25, penaltyscore = 0,
                     endscore = running_total st + 45,
                     playresult = WHACK, selection = char_of (hole p + 48)\<rparr>],
                 missedcount = missedcount st\<rparr>)"
proof -
  have b: "(0::int) \<le> 0" "(0::int) < 5" by simp_all
  show ?thesis
    using assms
    by (simp add: mole_up_def set_mole_status_def status_assert_def waits_for_ack_def
        started_row whacked_row_def eligible_def PopupAnim_def display_ack_def
        mole_key_wait_def mole_key_outcome_def compute_score_whack[OF b] BONUSPOINTS_def)
qed

theorem strike_in_key_wait_is_whack_witness:
  "mole_up holekeys (example_table ! 0)
       [Woken (\<lambda>q. presentation_started (bridge_step holekeys [] HIDING q))]
       [KeyWake 0 (whacked_row holekeys (CHR ''9''))] initial_scores (\<lambda>q. q)
       [Woken display_ack]
     = Inr ((example_table ! 0)\<lparr>molestatus := WHACKED, displayack := WHACKED,
               animspec := PopupAnim\<lparr>AnimationSpec.hole := 2, AnimationSpec.duration := 0,
                             AnimationSpec.mole := 6, synccount := 1\<rparr>,
               animcancelled := 1, keystruck := CHR ''9'', scoreidx := 0\<rparr>,
            \<lparr>scores =
               [\<lparr>ScoreSheetRecord.mole = 6, ScoreSheetRecord.hole = 2, startscore = 0,
                 missedscore = 0, whackedscore = 20, bonusscore = 25, penaltyscore = 0,
                 endscore = 45, playresult = WHACK, selection = CHR ''2''\<rparr>],
             missedcount = 0\<rparr>)"
proof -
  let ?p = "example_table ! 0"
  have h: "molestatus ?p = HIDING" "displayack ?p = HIDING" "0 \<le> hole ?p"
    "hole ?p < int (length holekeys)" "holekeys ! nat (hole ?p) = CHR ''9''"
    "CHR ''9'' \<noteq> CHR 0x00"
    by (simp_all add: example_table_def holekeys_def zero_MoleCommRecord_def)
  have v: "hole ?p = 2" "mole ?p = 6" "uptime ?p = 0"
    by (simp_all add: example_table_def zero_MoleCommRecord_def)
  have s: "running_total initial_scores = 0" "missedcount initial_scores = 0"
    "scores initial_scores = []"
    by (simp_all add: initial_scores_def running_total_def)
  from strike_in_key_wait_is_whack[OF h, of "[]" initial_scores] v s
  show ?thesis by (simp add: char_of_def)
qed

text \<open>
  Claim C5. For every recognized key for which exactly one row is eligible (status \<open>UP\<close>,
  acknowledged \<open>UP\<close>, the key of its hole is the pressed key, key not already matched,
  \<open>0 < synccount < syncpoints\<close>, presentation not cancelled), the presentation of that row
  is cancelled, the row is marked matched and its wait signalled, no penalty record is
  appended, and the woken controller records exactly one \<open>WHACK\<close>.

  The code does the dispatcher's half and can miss the controller's half. The row becomes
  eligible while its controller is still inside \<open>set_mole_status(p, UP)\<close>: the bridge
  acknowledges \<open>UP\<close> and launches the pop-up presentation, which writes its first checkpoint,
  and nothing keeps the dispatcher from taking the lock before the controller does. In that
  run the row is the only eligible one of the table, the dispatcher cancels its presentation,
  stores the key and signals \<open>keycond\<close> (on which nobody waits yet), and appends no record;
  the controller then returns from \<open>set_mole_status\<close>, erases the key
  (\<open>p->keystruck = '\0'; // serves as predicate check for spurious wakeups\<close>), waits until
  the deadline and records \<open>ESCAPE\<close>, with the penalty of a missed mole, instead of
  \<open>WHACK\<close>. The three conjuncts are: the row is eligible; what the dispatcher does to the
  table; what the controller records.
\<close>

theorem early_strike_is_lost:
  assumes "molestatus p = HIDING" and "displayack p = HIDING"
    and "0 \<le> hole p" and "hole p < int (length hk)"
    and "hk ! nat (hole p) = inputkey" and "inputkey \<noteq> CHR 0x00"
    and "keystruck p \<noteq> inputkey"
  shows "eligible hk inputkey
           (presentation_started (bridge_step hk scs HIDING (p\<lparr>molestatus := UP\<rparr>)))
     \<and> input_key hk clk others inputkey
           [presentation_started (bridge_step hk scs HIDING (p\<lparr>molestatus := UP\<rparr>)),
            zero_MoleCommRecord, zero_MoleCommRecord] st0
         = Inr ([early_strike hk scs inputkey (p\<lparr>molestatus := UP\<rparr>),
                 zero_MoleCommRecord, zero_MoleCommRecord], st0, [Cancel 0, SignalKey 0])
     \<and> mole_up hk p [Woken (early_strike hk scs inputkey)] [KeyWake ETIMEDOUT (\<lambda>q. q)] st
           (\<lambda>q. q) [Woken display_ack]
         = Inr (p\<lparr>molestatus := EXPIRED, displayack := EXPIRED,
                   animspec := PopupAnim\<lparr>AnimationSpec.hole := hole p,
                                 AnimationSpec.duration := uptime p,
                                 AnimationSpec.mole := mole p, synccount := 1\<rparr>,
                   animcancelled := 1, keystruck := CHR 0x00,
                   scoreidx := int (length (scores st))\<rparr>,
                \<lparr>scores = scores st @
                   [\<lparr>ScoreSheetRecord.mole = mole p, ScoreSheetRecord.hole = hole p,
                     startscore = running_total st,
                     missedscore = missed_score (missedcount st + 1) (running_total st),
                     whackedscore = 0, bonusscore = 0, penaltyscore = 0,
                     endscore = max 0 (running_total st - min 50 (10 * (missedcount st + 1))),
                     playresult = ESCAPE, selection = CHR 0x00\<rparr>],
                 missedcount = missedcount st + 1\<rparr>)"
proof -
  let ?p2 = "p\<lparr>molestatus := UP\<rparr>"
  let ?q = "presentation_started (bridge_step hk scs HIDING ?p2)"
  let ?mc = "[?q, zero_MoleCommRecord, zero_MoleCommRecord]"
  have el: "eligible hk inputkey ?q"
    using assms(3,5,7) by (rule started_row_eligible)
  have mem: "inputkey \<in> set hk"
  proof -
    from assms(3,4) have "nat (hole p) < length hk" by simp
    from nth_mem[OF this] assms(5) show ?thesis by simp
  qed
  have others_not: "\<forall>j < length ?mc. j \<noteq> 0 \<longrightarrow> \<not> eligible hk inputkey (?mc ! j)"
  proof (intro allI impI)
    fix j assume "j < length ?mc" and "j \<noteq> 0"
    then have "j = 1 \<or> j = 2" by auto
    then show "\<not> eligible hk inputkey (?mc ! j)"
      by (auto simp: zero_row_not_eligible)
  qed
  have k0: "0 < length ?mc" by simp
  have el0: "eligible hk inputkey (?mc ! 0)" using el by simp
  have disp: "input_key hk clk others inputkey ?mc st0
         = Inr ([early_strike hk scs inputkey ?p2, zero_MoleCommRecord, zero_MoleCommRecord],
                st0, [Cancel 0, SignalKey 0])"
    using dispatch_single_eligible[OF assms(6) mem k0 el0 others_not, of clk others st0] el
    by (simp add: early_strike_def whacked_row_def)
  have miss: "is_miss ESCAPE" by (simp add: is_miss_def)
  have "mole_up hk p [Woken (early_strike hk scs inputkey)] [KeyWake ETIMEDOUT (\<lambda>q. q)] st
           (\<lambda>q. q) [Woken display_ack]
         = Inr (p\<lparr>molestatus := EXPIRED, displayack := EXPIRED,
                   animspec := PopupAnim\<lparr>AnimationSpec.hole := hole p,
                                 AnimationSpec.duration := uptime p,
                                 AnimationSpec.mole := mole p, synccount := 1\<rparr>,
                   animcancelled := 1, keystruck := CHR 0x00,
                   scoreidx := int (length (scores st))\<rparr>,
                \<lparr>scores = scores st @
                   [\<lparr>ScoreSheetRecord.mole = mole p, ScoreSheetRecord.hole = hole p,
                     startscore = running_total st,
                     missedscore = missed_score (missedcount st + 1) (running_total st),
                     whackedscore = 0, bonusscore = 0, penaltyscore = 0,
                     endscore = max 0 (running_total st - min 50 (10 * (missedcount st + 1))),
                     playresult = ESCAPE, selection = CHR 0x00\<rparr>],
                 missedcount = missedcount st + 1\<rparr>)"
    using assms el[unfolded started_row]
    by (simp add: mole_up_def set_mole_status_def status_assert_def waits_for_ack_def
        early_strike_def whacked_row_def started_row display_ack_def
        mole_key_wait_def ETIMEDOUT_def mole_key_outcome_def compute_score_miss[OF miss])
  with el disp show ?thesis by blast
qed

theorem early_strike_is_lost_witness:
  "molestatus (example_table ! 0) = HIDING \<and> displayack (example_table ! 0) = HIDING
   \<and> hole (example_table ! 0) = 2 \<and> length holekeys = 9 \<and> holekeys ! 2 = CHR ''9''
   \<and> keystruck (example_table ! 0) = CHR 0x00
   \<and> eligible holekeys (CHR ''9'')
         (presentation_started
            (bridge_step holekeys [] HIDING ((example_table ! 0)\<lparr>molestatus := UP\<rparr>)))
   \<and> input_key holekeys example_clock (\<lambda>t. t) (CHR ''9'')
         [presentation_started
            (bridge_step holekeys [] HIDING ((example_table ! 0)\<lparr>molestatus := UP\<rparr>)),
          zero_MoleCommRecord, zero_MoleCommRecord] initial_scores
       = Inr ([early_strike holekeys [] (CHR ''9'') ((example_table ! 0)\<lparr>molestatus := UP\<rparr>),
               zero_MoleCommRecord, zero_MoleCommRecord], initial_scores,
              [Cancel 0, SignalKey 0])
   \<and> mole_up holekeys (example_table ! 0) [Woken (early_strike holekeys [] (CHR ''9''))]
         [KeyWake ETIMEDOUT (\<lambda>q. q)] initial_scores (\<lambda>q. q) [Woken display_ack]
       = Inr ((example_table ! 0)\<lparr>molestatus := EXPIRED, displayack := EXPIRED,
                 animspec := PopupAnim\<lparr>AnimationSpec.hole := 2, AnimationSpec.duration := 0,
                               AnimationSpec.mole := 6, synccount := 1\<rparr>,
                 animcancelled := 1, keystruck := CHR 0x00, scoreidx := 0\<rparr>,
              \<lparr>scores =
                 [\<lparr>ScoreSheetRecord.mole = 6, ScoreSheetRecord.hole = 2, startscore = 0,
                   missedscore = 0, whackedscore = 0, bonusscore = 0, penaltyscore = 0,
                   endscore = 0, playresult = ESCAPE, selection = CHR 0x00\<rparr>],
               missedcount = 1\<rparr>)"
proof -
  let ?p = "example_table ! 0"
  have h: "molestatus ?p = HIDING" "displayack ?p = HIDING" "0 \<le> hole ?p"
    "hole ?p < int (length holekeys)" "holekeys ! nat (hole ?p) = CHR ''9''"
    "CHR ''9'' \<noteq> CHR 0x00" "keystruck ?p \<noteq> CHR ''9''"
    by (simp_all add: example_table_def holekeys_def zero_MoleCommRecord_def)
  have v: "hole ?p = 2" "length holekeys = 9" "holekeys ! 2 = CHR ''9''"
    "keystruck ?p = CHR 0x00" "mole ?p = 6" "uptime ?p = 0"
    by (simp_all add: example_table_def holekeys_def zero_MoleCommRecord_def)
  have s: "running_total initial_scores = 0" "missedcount initial_scores = 0"
    "scores initial_scores = []" "missed_score 1 0 = 0"
    by (simp_all add: initial_scores_def running_total_def missed_score_def MISSEDMOLESCORE_def
        MISSEDMOLEMULTIPLIER_def MISSEDMOLECAP_def)
  note e = early_strike_is_lost[OF h, of "[]" example_clock "\<lambda>t. t" initial_scores initial_scores]
  from e have e1: "eligible holekeys (CHR ''9'')
         (presentation_started
            (bridge_step holekeys [] HIDING (?p\<lparr>molestatus := UP\<rparr>)))" by (rule conjunct1)
  from e have e2: "input_key holekeys example_clock (\<lambda>t. t) (CHR ''9'')
         [presentation_started
            (bridge_step holekeys [] HIDING (?p\<lparr>molestatus := UP\<rparr>)),
          zero_MoleCommRecord, zero_MoleCommRecord] initial_scores
       = Inr ([early_strike holekeys [] (CHR ''9'') (?p\<lparr>molestatus := UP\<rparr>),
               zero_MoleCommRecord, zero_MoleCommRecord], initial_scores,
              [Cancel 0, SignalKey 0])" by (rule conjunct1[OF conjunct2])
  from e have e3: "mole_up holekeys ?p [Woken (early_strike holekeys [] (CHR ''9''))]
         [KeyWake ETIMEDOUT (\<lambda>q. q)] initial_scores (\<lambda>q. q) [Woken display_ack]
       = Inr (?p\<lparr>molestatus := EXPIRED, displayack := EXPIRED,
                 animspec := PopupAnim\<lparr>AnimationSpec.hole := 2, AnimationSpec.duration := 0,
                               AnimationSpec.mole := 6, synccount := 1\<rparr>,
                 animcancelled := 1, keystruck := CHR 0x00, scoreidx := 0\<rparr>,
              \<lparr>scores =
                 [\<lparr>ScoreSheetRecord.mole = 6, ScoreSheetRecord.hole = 2, startscore = 0,
                   missedscore = 0, whackedscore = 0, bonusscore = 0, penaltyscore = 0,
                   endscore = 0, playresult = ESCAPE, selection = CHR 0x00\<rparr>],
               missedcount = 1\<rparr>)"
    using v s by simp
  from h(1,2) v(1-4) e1 e2 e3 show ?thesis by (intro conjI)
qed

text \<open>
  The stage of the bonus is read after the wake-up
  (\<open>compute_score(..., p->animspec.synccount-1, WHACK)\<close>), not when the key was accepted.
  A row at its fifth checkpoint is eligible; when the cancelled presentation still carries
  out its last write before the controller runs, the stage is 5 and
  \<open>BONUSPOINTS[bonusstage]\<close> is read past the five entries of the array.
\<close>

lemma late_checkpoint_reads_past_bonuspoints:
  assumes "molestatus p = UP" and "displayack p = UP"
    and "0 \<le> hole p" and "hole p < int (length hk)"
    and "hk ! nat (hole p) = inputkey" and "inputkey \<noteq> CHR 0x00"
    and "synccount (animspec p) = 5" and "syncpoints (animspec p) = 6"
    and "animcancelled p = 0"
  shows "eligible hk inputkey (p\<lparr>keystruck := CHR 0x00\<rparr>)
     \<and> (case mole_key_wait p [KeyWake 0 (\<lambda>q. late_checkpoint (whacked_row hk inputkey q))] of
          Inl e \<Rightarrow> Inl e
        | Inr (p2, condretval, krest) \<Rightarrow> mole_key_outcome hk p2 condretval st other ws)
       = Inl OutOfBounds"
proof -
  have el: "eligible hk inputkey (p\<lparr>keystruck := CHR 0x00\<rparr>)"
    using assms by (simp add: eligible_def)
  have c: "compute_score st m h c 5 WHACK = Inl OutOfBounds" for m h c
    by (simp add: compute_score_def BONUSSLICES_def)
  show ?thesis
    using assms el
    by (simp add: mole_key_wait_def whacked_row_def late_checkpoint_def mole_key_outcome_def c)
qed

theorem late_checkpoint_reads_past_bonuspoints_witness:
  "eligible holekeys (CHR ''5'')
     ((example_table ! 1)\<lparr>animspec := PopupAnim\<lparr>synccount := 5\<rparr>, keystruck := CHR 0x00\<rparr>)
   \<and> (case mole_key_wait ((example_table ! 1)\<lparr>animspec := PopupAnim\<lparr>synccount := 5\<rparr>\<rparr>)
             [KeyWake 0 (\<lambda>q. late_checkpoint (whacked_row holekeys (CHR ''5'') q))] of
        Inl e \<Rightarrow> Inl e
      | Inr (p2, condretval, krest) \<Rightarrow>
          mole_key_outcome holekeys p2 condretval initial_scores (\<lambda>q. q) [Woken display_ack])
     = Inl OutOfBounds"
proof -
  let ?p = "(example_table ! 1)\<lparr>animspec := PopupAnim\<lparr>synccount := 5\<rparr>\<rparr>"
  have h: "molestatus ?p = UP" "displayack ?p = UP" "0 \<le> hole ?p"
    "hole ?p < int (length holekeys)" "holekeys ! nat (hole ?p) = CHR ''5''"
    "CHR ''5'' \<noteq> CHR 0x00" "synccount (animspec ?p) = 5" "syncpoints (animspec ?p) = 6"
    "animcancelled ?p = 0"
    by (simp_all add: example_table_def holekeys_def zero_MoleCommRecord_def PopupAnim_def)
  from late_checkpoint_reads_past_bonuspoints[OF h, of initial_scores "\<lambda>q. q"
      "[Woken display_ack]"]
  show ?thesis by simp
qed

end
